theory Spec2Isabelle
  imports Main "HOL-Library.Char_ord" "HOL-Library.List_Lexorder" "HOL-Library.AList"
begin

section \<open>Data model\<close>

text \<open>
  A path is the list of its components; \<open>dir / name\<close> appends one component,
  \<open>filename\<close> is the last component and \<open>parent_path\<close> drops it.
\<close>

type_synonym path = "string list"

definition filename :: "path \<Rightarrow> string" where
  "filename p = (if p = [] then [] else last p)"

definition parent_path :: "path \<Rightarrow> path" where
  "parent_path p = butlast p"

text \<open>
  What the filesystem holds at a path. Every kind carries its mtime; a regular file its
  bytes, a directory its children in the order a directory scan returns them, a symlink
  its link text and what the link resolves to (\<open>NonExisting\<close> when it dangles), a device
  its device number. \<open>NonExisting\<close> also stands for an entry that vanished after the
  directory scan.
\<close>

datatype node =
    Regular int string
  | Dir int "(string \<times> node) list"
  | Symlink int string node
  | Fifo int
  | Socket int
  | BlockDev int nat
  | CharDev int nat
  | NonExisting

text \<open>A \<open>std::filesystem::directory_entry\<close>: a path and what is found there.\<close>

type_synonym entry = "path \<times> node"

datatype FileType =
  FT_REGULAR | FT_DIR | FT_SYMLINK | FT_FIFO | FT_SOCKET | FT_BLOCK | FT_CHAR | FT_NON_EXISTING

datatype error =
    FilesystemError path
  | RuntimeError string

text \<open>Following symlinks to the end, as \<open>stat\<close> does where \<open>lstat\<close> does not.\<close>

fun resolve :: "node \<Rightarrow> node" where
  "resolve (Symlink m t n) = resolve n"
| "resolve n = n"

fun nodeType :: "node \<Rightarrow> FileType" where
  "nodeType (Regular m c) = FT_REGULAR"
| "nodeType (Dir m cs) = FT_DIR"
| "nodeType (Symlink m t n) = FT_SYMLINK"
| "nodeType (Fifo m) = FT_FIFO"
| "nodeType (Socket m) = FT_SOCKET"
| "nodeType (BlockDev m r) = FT_BLOCK"
| "nodeType (CharDev m r) = FT_CHAR"
| "nodeType NonExisting = FT_NON_EXISTING"

text \<open>
  Modelled from the spec: \<open>ut1::getFileType\<close> (MiscUtils is not part of the sources).
  The entry classifier of the spec: with \<open>followSymlinks\<close> a symlink is resolved and the
  target's kind is returned, otherwise a symlink is a Symlink whatever its target;
  NonExisting is the kind of an entry that is not there.
\<close>

definition getFileType :: "entry \<Rightarrow> bool \<Rightarrow> FileType" where
  "getFileType e followSymlinks =
     nodeType (if followSymlinks then resolve (snd e) else snd e)"

text \<open>
  Modelled from the spec: \<open>ut1::hasPrefix\<close> (MiscUtils is not part of the sources):
  the name starts with the given prefix.
\<close>

definition hasPrefix :: "string \<Rightarrow> string \<Rightarrow> bool" where
  "hasPrefix s p = (take (length p) s = p)"

text \<open>
  Modelled from the spec: \<open>ut1::fsExists\<close> (MiscUtils is not part of the sources):
  something is present at the path, a dangling symlink included.
\<close>

definition fsExists :: "entry \<Rightarrow> bool" where
  "fsExists e = (snd e \<noteq> NonExisting)"

text \<open>
  \<open>std::filesystem::directory_iterator\<close>: the children of a directory (reached through
  symlinks, as \<open>opendir\<close> does) in scan order, each with its full path; an error on
  anything that is not a directory.
\<close>

definition directory_iterator :: "entry \<Rightarrow> error + entry list" where
  "directory_iterator e =
     (case resolve (snd e) of
        Dir m cs \<Rightarrow> Inr (map (\<lambda>(name, n). (fst e @ [name], n)) cs)
      | _ \<Rightarrow> Inl (FilesystemError (fst e)))"

text \<open>\<open>directory_entry::file_size\<close>: the size of a regular file, symlinks followed.\<close>

definition file_size :: "entry \<Rightarrow> error + nat" where
  "file_size e =
     (case resolve (snd e) of
        Regular m c \<Rightarrow> Inr (length c)
      | _ \<Rightarrow> Inl (FilesystemError (fst e)))"

text \<open>
  Modelled from the spec: \<open>ut1::readFile\<close> (MiscUtils is not part of the sources):
  the full bytes of a file, symlinks followed.
\<close>

definition readFile :: "entry \<Rightarrow> error + string" where
  "readFile e =
     (case resolve (snd e) of
        Regular m c \<Rightarrow> Inr c
      | _ \<Rightarrow> Inl (FilesystemError (fst e)))"

text \<open>\<open>std::filesystem::read_symlink\<close>: the link text; an error on a non-symlink.\<close>

definition read_symlink :: "entry \<Rightarrow> error + string" where
  "read_symlink e =
     (case snd e of
        Symlink m t n \<Rightarrow> Inr t
      | _ \<Rightarrow> Inl (FilesystemError (fst e)))"

text \<open>
  Modelled from the spec: \<open>ut1::getStat(...).getRDev()\<close> (MiscUtils is not part of the
  sources): the device number of a block or character device, symlinks followed.
\<close>

definition getRDev :: "entry \<Rightarrow> error + nat" where
  "getRDev e =
     (case resolve (snd e) of
        BlockDev m r \<Rightarrow> Inr r
      | CharDev m r \<Rightarrow> Inr r
      | NonExisting \<Rightarrow> Inl (FilesystemError (fst e))
      | _ \<Rightarrow> Inr 0)"

text \<open>
  The helpers of MiscUtils that cannot be computed from the tree are parameters:
  \<open>toNfd\<close> is the canonical decomposition of a filename, \<open>getFileTypeStr\<close> the printed
  name of an entry's kind.
\<close>

record MiscUtils =
  toNfd :: "string \<Rightarrow> string"
  getFileTypeStr :: "entry \<Rightarrow> bool \<Rightarrow> string"

text \<open>\<open>TreeDiff::Params\<close> without the callbacks, which are the events below.\<close>

record Params =
  srcdir :: path
  dstdir :: path
  ignoreDirs :: bool
  ignoreSpecial :: bool
  ignoreForksSrc :: bool
  ignoreForksDst :: bool
  followSymlinks :: bool
  ignoreContent :: bool
  normalizeFilenames :: bool

text \<open>
  One constructor per callback of \<open>TreeDiff::Params\<close>, with the callback's arguments;
  the log of a comparison is the list of callback invocations in call order.
\<close>

datatype event =
    SrcOnly entry path
  | DstOnly path entry
  | Match entry entry
  | Mismatch entry entry
  | TypeMismatch entry entry
  | ProgressDirs entry entry
  | ProgressFiles entry entry
  | IgnoredDir entry
  | IgnoredFile entry

section \<open>The comparator\<close>

definition ignoreSrcFile :: "string \<Rightarrow> Params \<Rightarrow> bool" where
  "ignoreSrcFile fname params = (ignoreForksSrc params \<and> hasPrefix fname ''._'')"

definition ignoreDstFile :: "string \<Rightarrow> Params \<Rightarrow> bool" where
  "ignoreDstFile fname params = (ignoreForksDst params \<and> hasPrefix fname ''._'')"

text \<open>
  A \<open>std::map<std::string, directory_entry>\<close> is its list of pairs in ascending key
  order; \<open>map_assign k v m\<close> is \<open>m[k] = v\<close>: a new key is inserted in its place, an
  existing key has its value replaced.
\<close>

fun map_assign :: "string \<Rightarrow> 'v \<Rightarrow> (string \<times> 'v) list \<Rightarrow> (string \<times> 'v) list" where
  "map_assign k v [] = [(k, v)]"
| "map_assign k v ((k', v') # m) =
     (if k < k' then (k, v) # (k', v') # m
      else if k = k' then (k, v) # m
      else (k', v') # map_assign k v m)"

text \<open>The body of the two scan loops of \<open>processDir\<close>, for one scanned entry.\<close>

definition scanSrc :: "MiscUtils \<Rightarrow> Params \<Rightarrow> (string \<times> entry) list \<Rightarrow> entry \<Rightarrow> (string \<times> entry) list" where
  "scanSrc ut params srcmap entry =
     (if ignoreSrcFile (filename (fst entry)) params then srcmap
      else
        let fname = filename (fst entry);
            fname = (if normalizeFilenames params then toNfd ut fname else fname)
        in map_assign fname entry srcmap)"

definition scanDst :: "MiscUtils \<Rightarrow> Params \<Rightarrow> (string \<times> entry) list \<Rightarrow> entry \<Rightarrow> (string \<times> entry) list" where
  "scanDst ut params dstmap entry =
     (if ignoreDstFile (filename (fst entry)) params then dstmap
      else
        let fname = filename (fst entry);
            fname = (if normalizeFilenames params then toNfd ut fname else fname)
        in map_assign fname entry dstmap)"

text \<open>The two directory reads at the head of \<open>processDir\<close>.\<close>

definition readSrcDir :: "MiscUtils \<Rightarrow> Params \<Rightarrow> entry \<Rightarrow> error + (string \<times> entry) list" where
  "readSrcDir ut params src =
     (case directory_iterator src of
        Inl e \<Rightarrow> Inl e
      | Inr entries \<Rightarrow> Inr (foldl (scanSrc ut params) [] entries))"

definition readDstDir :: "MiscUtils \<Rightarrow> Params \<Rightarrow> entry \<Rightarrow> error + (string \<times> entry) list" where
  "readDstDir ut params dst =
     (if fsExists dst then
        (case directory_iterator dst of
           Inl e \<Rightarrow> Inl e
         | Inr entries \<Rightarrow> Inr (foldl (scanDst ut params) [] entries))
      else Inr [])"

text \<open>The conditions of the content comparisons, evaluated left to right.\<close>

definition sameRegular :: "Params \<Rightarrow> entry \<Rightarrow> entry \<Rightarrow> error + bool" where
  "sameRegular params s d =
     (case file_size s of
        Inl e \<Rightarrow> Inl e
      | Inr ssize \<Rightarrow>
         (case file_size d of
            Inl e \<Rightarrow> Inl e
          | Inr dsize \<Rightarrow>
             if ssize \<noteq> dsize then Inr False
             else if ignoreContent params then Inr True
             else
               (case readFile s of
                  Inl e \<Rightarrow> Inl e
                | Inr sbytes \<Rightarrow>
                   (case readFile d of
                      Inl e \<Rightarrow> Inl e
                    | Inr dbytes \<Rightarrow> Inr (sbytes = dbytes)))))"

definition sameSymlink :: "entry \<Rightarrow> entry \<Rightarrow> error + bool" where
  "sameSymlink s d =
     (case read_symlink s of
        Inl e \<Rightarrow> Inl e
      | Inr starget \<Rightarrow>
         (case read_symlink d of
            Inl e \<Rightarrow> Inl e
          | Inr dtarget \<Rightarrow> Inr (starget = dtarget)))"

definition sameRDev :: "entry \<Rightarrow> entry \<Rightarrow> error + bool" where
  "sameRDev s d =
     (case getRDev s of
        Inl e \<Rightarrow> Inl e
      | Inr srdev \<Rightarrow>
         (case getRDev d of
            Inl e \<Rightarrow> Inl e
          | Inr drdev \<Rightarrow> Inr (srdev = drdev)))"

text \<open>The size of a map's subtrees, for the termination of the traversal.\<close>

definition mapWeight :: "(string \<times> entry) list \<Rightarrow> nat" where
  "mapWeight m = sum_list (map (\<lambda>(k, e). Suc (size (snd e))) m)"

lemma mapWeight_Nil: "mapWeight [] = 0"
  by (simp add: mapWeight_def)

lemma mapWeight_Cons: "mapWeight ((k, e) # m) = Suc (size (snd e)) + mapWeight m"
  by (simp add: mapWeight_def)

lemma mapWeight_map_assign: "mapWeight (map_assign k e m) \<le> Suc (size (snd e)) + mapWeight m"
  by (induction m) (auto simp: mapWeight_def)

lemma size_resolve: "size (resolve n) \<le> size n"
  by (induction n rule: resolve.induct) auto

lemma mapWeight_scanSrc:
  "mapWeight (scanSrc ut params m e) \<le> Suc (size (snd e)) + mapWeight m"
  using mapWeight_map_assign [of _ e m] by (simp add: scanSrc_def Let_def)

lemma mapWeight_foldl_scanSrc:
  "mapWeight (foldl (scanSrc ut params) m es)
     \<le> mapWeight m + sum_list (map (\<lambda>e. Suc (size (snd e))) es)"
proof (induction es arbitrary: m)
  case Nil
  show ?case by simp
next
  case (Cons e es)
  have "mapWeight (foldl (scanSrc ut params) (scanSrc ut params m e) es)
          \<le> mapWeight (scanSrc ut params m e) + sum_list (map (\<lambda>e. Suc (size (snd e))) es)"
    by (rule Cons.IH)
  also have "\<dots> \<le> Suc (size (snd e)) + mapWeight m + sum_list (map (\<lambda>e. Suc (size (snd e))) es)"
    using mapWeight_scanSrc [of ut params m e] by simp
  finally show ?case by simp
qed

lemma children_weight:
  "sum_list (map (\<lambda>e. Suc (size (snd e))) (map (\<lambda>(name, n). (p @ [name], n)) cs))
     < size (Dir m cs)"
  by (induction cs) auto

lemma readSrcDir_weight:
  assumes "readSrcDir ut params src = Inr srcmap"
  shows "mapWeight srcmap < size (snd src)"
proof -
  obtain m cs where r: "resolve (snd src) = Dir m cs"
    using assms by (auto simp: readSrcDir_def directory_iterator_def split: node.splits)
  let ?es = "map (\<lambda>(name, n). (fst src @ [name], n)) cs"
  have "srcmap = foldl (scanSrc ut params) [] ?es"
    using assms r by (simp add: readSrcDir_def directory_iterator_def)
  then have "mapWeight srcmap \<le> sum_list (map (\<lambda>e. Suc (size (snd e))) ?es)"
    using mapWeight_foldl_scanSrc [of ut params "[]" ?es] by (simp add: mapWeight_Nil)
  also have "\<dots> < size (Dir m cs)"
    by (rule children_weight)
  also have "\<dots> \<le> size (snd src)"
    using size_resolve [of "snd src"] r by simp
  finally show ?thesis .
qed

text \<open>The callback wrappers of \<open>TreeDiff\<close>: each call is appended to the log.\<close>

definition srcOnly :: "entry \<Rightarrow> path \<Rightarrow> event list \<Rightarrow> event list" where
  "srcOnly src dstpath log = log @ [SrcOnly src dstpath]"

definition dstOnly :: "path \<Rightarrow> entry \<Rightarrow> event list \<Rightarrow> event list" where
  "dstOnly srcpath dst log = log @ [DstOnly srcpath dst]"

definition match :: "entry \<Rightarrow> entry \<Rightarrow> event list \<Rightarrow> event list" where
  "match src dst log = log @ [Match src dst]"

definition mismatch :: "entry \<Rightarrow> entry \<Rightarrow> event list \<Rightarrow> event list" where
  "mismatch src dst log = log @ [Mismatch src dst]"

definition typeMismatch :: "entry \<Rightarrow> entry \<Rightarrow> event list \<Rightarrow> event list" where
  "typeMismatch src dst log = log @ [TypeMismatch src dst]"

definition progressDirs :: "entry \<Rightarrow> entry \<Rightarrow> event list \<Rightarrow> event list" where
  "progressDirs src dst log = log @ [ProgressDirs src dst]"

definition progressFiles :: "entry \<Rightarrow> entry \<Rightarrow> event list \<Rightarrow> event list" where
  "progressFiles src dst log = log @ [ProgressFiles src dst]"

definition ignoredDir :: "entry \<Rightarrow> event list \<Rightarrow> event list" where
  "ignoredDir entry log = log @ [IgnoredDir entry]"

definition ignoredFile :: "entry \<Rightarrow> event list \<Rightarrow> event list" where
  "ignoredFile entry log = log @ [IgnoredFile entry]"

text \<open>
  \<open>TreeDiff::processDir\<close>. \<open>mergeLoop\<close> is its \<open>for (;;)\<close> loop: the two lists are what
  remains from \<open>itsrc\<close> and \<open>itdst\<close> to the end of the maps, the flag is
  \<open>noDifferenceFound\<close>. \<open>compareEntries\<close> is the last branch of the loop body, for two
  entries of the same name, up to the two iterator increments. Each result is the log so
  far and either the flag or the exception that ended the traversal.
\<close>

function processDir :: "MiscUtils \<Rightarrow> Params \<Rightarrow> entry \<Rightarrow> entry \<Rightarrow> event list \<Rightarrow> event list \<times> (error + bool)"
  and mergeLoop :: "MiscUtils \<Rightarrow> Params \<Rightarrow> entry \<Rightarrow> entry \<Rightarrow> (string \<times> entry) list \<Rightarrow> (string \<times> entry) list
      \<Rightarrow> bool \<Rightarrow> event list \<Rightarrow> event list \<times> (error + bool)"
  and compareEntries :: "MiscUtils \<Rightarrow> Params \<Rightarrow> entry \<Rightarrow> entry \<Rightarrow> bool \<Rightarrow> event list \<Rightarrow> event list \<times> (error + bool)"
where
  "processDir ut params src dst log0 =
     (let log = progressDirs src dst log0 in
      case readSrcDir ut params src of
        Inl e \<Rightarrow> (log, Inl e)
      | Inr srcmap \<Rightarrow>
         (case readDstDir ut params dst of
            Inl e \<Rightarrow> (log, Inl e)
          | Inr dstmap \<Rightarrow> mergeLoop ut params src dst srcmap dstmap True log))"
| "mergeLoop ut params src dst [] [] noDifferenceFound log = (log, Inr noDifferenceFound)"
| "mergeLoop ut params src dst ((ks, s) # itsrc) [] noDifferenceFound log =
     mergeLoop ut params src dst itsrc [] False (srcOnly s (fst dst) log)"
| "mergeLoop ut params src dst [] ((kd, d) # itdst) noDifferenceFound log =
     mergeLoop ut params src dst [] itdst False (dstOnly (fst src) d log)"
| "mergeLoop ut params src dst ((ks, s) # itsrc) ((kd, d) # itdst) noDifferenceFound log =
     (if ks < kd then
        mergeLoop ut params src dst itsrc ((kd, d) # itdst) False (srcOnly s (fst dst) log)
      else if ks > kd then
        mergeLoop ut params src dst ((ks, s) # itsrc) itdst False (dstOnly (fst src) d log)
      else
        (case compareEntries ut params s d noDifferenceFound log of
           (log1, Inl e) \<Rightarrow> (log1, Inl e)
         | (log1, Inr noDifferenceFound1) \<Rightarrow>
            mergeLoop ut params src dst itsrc itdst noDifferenceFound1 log1))"
| "compareEntries ut params s d noDifferenceFound log =
     (let srctype = getFileType s (followSymlinks params);
          dsttype = getFileType d (followSymlinks params)
      in
      if srctype \<noteq> dsttype then (typeMismatch s d log, Inr False)
      else
        let type = getFileType s (followSymlinks params);
            log1 = (if type \<noteq> FT_DIR then progressFiles s d log else log)
        in
        (case type of
           FT_REGULAR \<Rightarrow>
             (case sameRegular params s d of
                Inl e \<Rightarrow> (log1, Inl e)
              | Inr same \<Rightarrow>
                 if same then (match s d log1, Inr noDifferenceFound)
                 else (mismatch s d log1, Inr False))
         | FT_DIR \<Rightarrow>
             if \<not> ignoreDirs params then
               (case processDir ut params s d log1 of
                  (log2, Inl e) \<Rightarrow> (log2, Inl e)
                | (log2, Inr equal) \<Rightarrow>
                   (log2, Inr (if \<not> equal then False else noDifferenceFound)))
             else (ignoredDir d (ignoredDir s log1), Inr noDifferenceFound)
         | FT_SYMLINK \<Rightarrow>
             (case sameSymlink s d of
                Inl e \<Rightarrow> (log1, Inl e)
              | Inr same \<Rightarrow>
                 if same then (match s d log1, Inr noDifferenceFound)
                 else (mismatch s d log1, Inr False))
         | FT_FIFO \<Rightarrow>
             if \<not> ignoreSpecial params then (match s d log1, Inr noDifferenceFound)
             else (ignoredFile d (ignoredFile s log1), Inr noDifferenceFound)
         | FT_SOCKET \<Rightarrow>
             if \<not> ignoreSpecial params then (match s d log1, Inr noDifferenceFound)
             else (ignoredFile d (ignoredFile s log1), Inr noDifferenceFound)
         | FT_BLOCK \<Rightarrow>
             if \<not> ignoreSpecial params then
               (case sameRDev s d of
                  Inl e \<Rightarrow> (log1, Inl e)
                | Inr same \<Rightarrow>
                   if same then (match s d log1, Inr noDifferenceFound)
                   else (mismatch s d log1, Inr False))
             else (ignoredFile d (ignoredFile s log1), Inr noDifferenceFound)
         | FT_CHAR \<Rightarrow>
             if \<not> ignoreSpecial params then
               (case sameRDev s d of
                  Inl e \<Rightarrow> (log1, Inl e)
                | Inr same \<Rightarrow>
                   if same then (match s d log1, Inr noDifferenceFound)
                   else (mismatch s d log1, Inr False))
             else (ignoredFile d (ignoredFile s log1), Inr noDifferenceFound)
         | FT_NON_EXISTING \<Rightarrow>
             (ignoredFile d (ignoredFile s log1), Inr noDifferenceFound)))"
  by pat_completeness auto

termination
proof (relation "inv_image (less_than <*lex*> less_than)
    (\<lambda>x. case x of
       Inl (ut, params, src, dst, log) \<Rightarrow> (size (snd src), 0)
     | Inr (Inl (ut, params, src, dst, itsrc, itdst, nd, log)) \<Rightarrow> (mapWeight itsrc, Suc (length itdst))
     | Inr (Inr (ut, params, s, d, nd, log)) \<Rightarrow> (size (snd s), Suc 0))", goal_cases)
  case 1
  show ?case by (intro wf_inv_image wf_lex_prod wf_less_than)
next
  case (2 ut params src dst log0 x srcmap dstmap)
  then show ?case using readSrcDir_weight by simp
qed (simp_all add: mapWeight_Cons mapWeight_Nil)

section \<open>The filesystem the dispatcher acts on\<close>

text \<open>
  The comparator reads the two trees; the dispatcher also writes. Its state is the tree
  under the root that all paths of a run start from, the lines written to standard
  output, the calls made to the mutating primitives of \<open>std::filesystem\<close> in call order,
  and the time that new files are stamped with.
\<close>

record copy_options =
  overwrite_existing :: bool
  copy_symlinks :: bool

datatype op =
    OpRemove path
  | OpCreateDirectories path
  | OpCopy path path copy_options
  | OpSetLastWriteTime path int

record world =
  fs :: node
  out :: "string list"
  ops :: "op list"
  clock :: int

text \<open>
  A step of the dispatcher returns the state it reached and, when it threw, the
  exception: what was written and changed before a throw stays written and changed.
\<close>

type_synonym result = "world \<times> error option"

fun mtime :: "node \<Rightarrow> int" where
  "mtime (Regular m c) = m"
| "mtime (Dir m cs) = m"
| "mtime (Symlink m t n) = m"
| "mtime (Fifo m) = m"
| "mtime (Socket m) = m"
| "mtime (BlockDev m r) = m"
| "mtime (CharDev m r) = m"
| "mtime NonExisting = 0"

text \<open>
  What is found at a path: directories on the way are entered through symlinks, the
  last component is not followed.
\<close>

fun fsLookup :: "node \<Rightarrow> path \<Rightarrow> node" where
  "fsLookup n [] = n"
| "fsLookup n (c # p) =
     (case resolve n of
        Dir m cs \<Rightarrow> (case map_of cs c of Some child \<Rightarrow> fsLookup child p | None \<Rightarrow> NonExisting)
      | _ \<Rightarrow> NonExisting)"

text \<open>The \<open>directory_entry\<close> made from a path.\<close>

definition entryAt :: "world \<Rightarrow> path \<Rightarrow> entry" where
  "entryAt w p = (p, fsLookup (fs w) p)"

text \<open>
  Replacing what is found at a path, in a tree: \<open>NonExisting\<close> as the new value removes
  the entry, a new name is added at the end of its directory. Nothing changes when the
  directory that should hold the entry is not there. A symlink holds its target as a
  subtree of its own, so what is written through a link is read back through that link
  and not through another path to the target.
\<close>

fun fsModify :: "path \<Rightarrow> (node \<Rightarrow> node) \<Rightarrow> node \<Rightarrow> node" where
  "fsModify [] f n = f n"
| "fsModify (c # p) f (Dir m cs) =
     (case map_of cs c of
        Some child \<Rightarrow>
          (let child' = fsModify p f child in
           if child' = NonExisting then Dir m (AList.delete c cs)
           else Dir m (AList.update c child' cs))
      | None \<Rightarrow>
          (let child' = fsModify p f NonExisting in
           if child' = NonExisting then Dir m cs else Dir m (cs @ [(c, child')])))"
| "fsModify (c # p) f (Symlink m t n) = Symlink m t (fsModify (c # p) f n)"
| "fsModify (c # p) f n = n"

text \<open>Writing a file through the symlinks that lead to it.\<close>

fun writeThrough :: "node \<Rightarrow> node \<Rightarrow> node" where
  "writeThrough new (Symlink m t n) = Symlink m t (writeThrough new n)"
| "writeThrough new n = new"

definition called :: "op \<Rightarrow> world \<Rightarrow> world" where
  "called c w = w\<lparr>ops := ops w @ [c]\<rparr>"

text \<open>
  \<open>std::filesystem::remove\<close>: nothing to do for a path that does not exist, an error
  for a directory that is not empty, otherwise the entry (a symlink itself, not its
  target) is removed.
\<close>

definition fs_remove :: "path \<Rightarrow> world \<Rightarrow> result" where
  "fs_remove p w0 =
     (let w = called (OpRemove p) w0 in
      case fsLookup (fs w) p of
        NonExisting \<Rightarrow> (w, None)
      | Dir m (c # cs) \<Rightarrow> (w, Some (FilesystemError p))
      | _ \<Rightarrow> (w\<lparr>fs := fsModify p (\<lambda>n. NonExisting) (fs w)\<rparr>, None))"

text \<open>
  \<open>std::filesystem::create_directories\<close>: every missing directory on the path is
  created; \<open>None\<close> when a component exists and is not a directory.
\<close>

fun createDirs :: "int \<Rightarrow> path \<Rightarrow> node \<Rightarrow> node option" where
  "createDirs now [] NonExisting = Some (Dir now [])"
| "createDirs now [] n = (if nodeType (resolve n) = FT_DIR then Some n else None)"
| "createDirs now (c # p) NonExisting =
     (case createDirs now p NonExisting of
        None \<Rightarrow> None
      | Some child \<Rightarrow> Some (Dir now [(c, child)]))"
| "createDirs now (c # p) (Dir m cs) =
     (case createDirs now p (case map_of cs c of Some child \<Rightarrow> child | None \<Rightarrow> NonExisting) of
        None \<Rightarrow> None
      | Some child \<Rightarrow> Some (Dir m (AList.update c child cs)))"
| "createDirs now (c # p) (Symlink m t n) =
     (if n = NonExisting then None
      else
        (case createDirs now (c # p) n of
           None \<Rightarrow> None
         | Some n' \<Rightarrow> Some (Symlink m t n')))"
| "createDirs now (c # p) n = None"

definition fs_create_directories :: "path \<Rightarrow> world \<Rightarrow> result" where
  "fs_create_directories p w0 =
     (let w = called (OpCreateDirectories p) w0 in
      case createDirs (clock w) p (fs w) of
        None \<Rightarrow> (w, Some (FilesystemError p))
      | Some root \<Rightarrow> (w\<lparr>fs := root\<rparr>, None))"

text \<open>
  \<open>std::filesystem::copy_file\<close> of the bytes \<open>c\<close> to a path: a new file needs its
  directory, an existing destination must be a regular file and \<open>overwrite_existing\<close>
  must be set.
\<close>

definition copy_file :: "path \<Rightarrow> string \<Rightarrow> path \<Rightarrow> copy_options \<Rightarrow> world \<Rightarrow> result" where
  "copy_file from c to options w =
     (let t = resolve (fsLookup (fs w) to);
          new = Regular (clock w) c
      in
      if t = NonExisting then
        (if nodeType (resolve (fsLookup (fs w) (parent_path to))) = FT_DIR \<and> to \<noteq> [] then
           (w\<lparr>fs := fsModify to (writeThrough new) (fs w)\<rparr>, None)
         else (w, Some (FilesystemError to)))
      else if nodeType t \<noteq> FT_REGULAR \<or> \<not> overwrite_existing options then
        (w, Some (FilesystemError to))
      else (w\<lparr>fs := fsModify to (writeThrough new) (fs w)\<rparr>, None))"

text \<open>
  \<open>std::filesystem::copy\<close> of an entry that is not a directory, with the two options
  the program uses: a symlink is copied as a symlink (under \<open>copy_symlinks\<close>, to a
  destination that does not exist), a regular file is copied with \<open>copy_file\<close> (into
  the destination when that is a directory), and a source that does not exist, a
  destination that exists and is the source itself, a fifo, a socket or a device on
  either side is an error. The program never passes a directory; for one the tree is
  left as it is.
\<close>

definition is_other :: "node \<Rightarrow> bool" where
  "is_other n = (nodeType n \<in> {FT_FIFO, FT_SOCKET, FT_BLOCK, FT_CHAR})"

definition fs_copy :: "entry \<Rightarrow> path \<Rightarrow> copy_options \<Rightarrow> world \<Rightarrow> result" where
  "fs_copy from to options w0 =
     (let w = called (OpCopy (fst from) to options) w0;
          f = (if copy_symlinks options then snd from else resolve (snd from));
          t = resolve (fsLookup (fs w) to)
      in
      if f = NonExisting then (w, Some (FilesystemError (fst from)))
      else if t \<noteq> NonExisting \<and> fst from = to then (w, Some (FilesystemError (fst from)))
      else if is_other f \<or> is_other t then (w, Some (FilesystemError (fst from)))
      else if nodeType f = FT_DIR \<and> nodeType t = FT_REGULAR then (w, Some (FilesystemError (fst from)))
      else
        (case f of
           Symlink m target n \<Rightarrow>
             if t = NonExisting \<and> copy_symlinks options then
               (if fsLookup (fs w) to = NonExisting
                    \<and> nodeType (resolve (fsLookup (fs w) (parent_path to))) = FT_DIR \<and> to \<noteq> [] then
                  (w\<lparr>fs := fsModify to (\<lambda>old. Symlink (clock w) target n) (fs w)\<rparr>, None)
                else (w, Some (FilesystemError to)))
             else (w, Some (FilesystemError (fst from)))
         | Regular m c \<Rightarrow>
             if nodeType t = FT_DIR then copy_file (fst from) c (to @ [filename (fst from)]) options w
             else copy_file (fst from) c to options w
         | _ \<Rightarrow> (w, None)))"

text \<open>\<open>ut1::setLastWriteTime\<close>, which no run reaches (see \<open>preserve\<close> below).\<close>

fun setMtime :: "int \<Rightarrow> node \<Rightarrow> node" where
  "setMtime t (Regular m c) = Regular t c"
| "setMtime t (Dir m cs) = Dir t cs"
| "setMtime t (Symlink m target n) = Symlink t target n"
| "setMtime t (Fifo m) = Fifo t"
| "setMtime t (Socket m) = Socket t"
| "setMtime t (BlockDev m r) = BlockDev t r"
| "setMtime t (CharDev m r) = CharDev t r"
| "setMtime t NonExisting = NonExisting"

text \<open>
  Modelled from the spec: \<open>ut1::setLastWriteTime\<close> and \<open>ut1::getLastWriteTime\<close>
  (MiscUtils is not part of the sources): setting and reading the mtime of an entry, of
  the target of a symlink with \<open>followSymlinks\<close>; an error for an entry that is not
  there.
\<close>

definition setLastWriteTime :: "entry \<Rightarrow> int \<Rightarrow> bool \<Rightarrow> world \<Rightarrow> result" where
  "setLastWriteTime e t follow w0 =
     (let w = called (OpSetLastWriteTime (fst e) t) w0;
          n = fsLookup (fs w) (fst e)
      in
      if (if follow then resolve n else n) = NonExisting then
        (w, Some (FilesystemError (fst e)))
      else
        (w\<lparr>fs := fsModify (fst e)
                (if follow then (\<lambda>old. writeThrough (setMtime t (resolve old)) old)
                 else setMtime t) (fs w)\<rparr>, None))"

definition getLastWriteTime :: "entry \<Rightarrow> bool \<Rightarrow> error + int" where
  "getLastWriteTime e follow =
     (let n = (if follow then resolve (snd e) else snd e) in
      if n = NonExisting then Inl (FilesystemError (fst e)) else Inr (mtime n))"

text \<open>
  Modelled from the spec: \<open>ut1::fsIsRegular\<close> and \<open>ut1::fsIsDirectory\<close> (MiscUtils is not
  part of the sources): the kind of the entry, as \<open>getFileType\<close> classifies it, is
  Regular, or Dir.
\<close>

definition fsIsRegular :: "entry \<Rightarrow> bool \<Rightarrow> bool" where
  "fsIsRegular e follow = (getFileType e follow = FT_REGULAR)"

definition fsIsDirectory :: "entry \<Rightarrow> bool \<Rightarrow> bool" where
  "fsIsDirectory e follow = (getFileType e follow = FT_DIR)"

text \<open>\<open>directory_entry::is_directory\<close>: the entry is a directory, symlinks followed.\<close>

definition is_directory :: "entry \<Rightarrow> bool" where
  "is_directory e = (nodeType (resolve (snd e)) = FT_DIR)"

text \<open>
  Printing: a path is written quoted, as \<open>operator<<\<close> of \<open>std::filesystem::path\<close>
  does, its components joined by a slash; \<open>showNat\<close> is \<open>std::to_string\<close>.
\<close>

fun joinPath :: "path \<Rightarrow> string" where
  "joinPath [] = []"
| "joinPath [c] = c"
| "joinPath (c # p) = c @ ''/'' @ joinPath p"

definition quoted :: "string \<Rightarrow> string" where
  "quoted s =
     [CHR 0x22] @ concat (map (\<lambda>c. if c = CHR 0x22 \<or> c = CHR 0x5C then [CHR 0x5C, c] else [c]) s)
       @ [CHR 0x22]"

definition showPath :: "path \<Rightarrow> string" where
  "showPath p = quoted (joinPath p)"

fun showNat :: "nat \<Rightarrow> string" where
  "showNat n =
     (if n < 10 then [char_of (48 + n)]
      else showNat (n div 10) @ [char_of (48 + n mod 10)])"

declare showNat.simps [simp del]

definition print :: "string \<Rightarrow> world \<Rightarrow> world" where
  "print line w = w\<lparr>out := out w @ [line]\<rparr>"

section \<open>Creating, removing and copying\<close>

text \<open>The sizes of a list of entries, for the termination of the recursions below.\<close>

definition entriesWeight :: "entry list \<Rightarrow> nat" where
  "entriesWeight es = sum_list (map (\<lambda>e. Suc (size (snd e))) es)"

lemma entriesWeight_Cons: "entriesWeight (e # es) = Suc (size (snd e)) + entriesWeight es"
  by (simp add: entriesWeight_def)

lemma directory_iterator_weight:
  assumes "directory_iterator e = Inr es"
  shows "entriesWeight es < size (snd e)"
proof -
  obtain m cs where r: "resolve (snd e) = Dir m cs"
    using assms by (auto simp: directory_iterator_def split: node.splits)
  have "entriesWeight es < size (Dir m cs)"
    using assms r children_weight [of "fst e" cs m]
    by (simp add: directory_iterator_def entriesWeight_def)
  also have "\<dots> \<le> size (snd e)"
    using size_resolve [of "snd e"] r by simp
  finally show ?thesis .
qed

text \<open>\<open>mkDirs\<close>: create directories if necessary.\<close>

definition mkDirs :: "path \<Rightarrow> bool \<Rightarrow> string \<Rightarrow> bool \<Rightarrow> world \<Rightarrow> result" where
  "mkDirs dir verbose verbosePrefix dummyMode w =
     (if \<not> fsExists (entryAt w dir) \<or> dummyMode then
        (let w1 = (if verbose then print (verbosePrefix @ '' '' @ showPath dir) w else w) in
         if \<not> dummyMode then fs_create_directories dir w1 else (w1, None))
      else if \<not> fsIsDirectory (entryAt w dir) False then
        (w, Some (RuntimeError
           (''Cannot create dir '' @ showPath dir @ '' on existing non-dir '' @ showPath dir)))
      else (w, None))"

text \<open>
  \<open>removeRecursive\<close>: remove a file or a directory with its contents. The argument is
  the entry made from the path when the function is entered, and the contents listed
  are the contents it had then; \<open>removeEach\<close> is the loop over them.
\<close>

function removeRecursive :: "MiscUtils \<Rightarrow> entry \<Rightarrow> bool \<Rightarrow> string \<Rightarrow> bool \<Rightarrow> bool \<Rightarrow> world \<Rightarrow> result"
  and removeEach :: "MiscUtils \<Rightarrow> entry list \<Rightarrow> bool \<Rightarrow> string \<Rightarrow> bool \<Rightarrow> bool \<Rightarrow> world \<Rightarrow> result"
where
  "removeRecursive ut dst verbose verbosePrefix follow dummyMode w =
     (case (if fsIsDirectory dst False then
              (case directory_iterator dst of
                 Inl e \<Rightarrow> (w, Some e)
               | Inr entries \<Rightarrow> removeEach ut entries verbose verbosePrefix follow dummyMode w)
            else (w, None)) of
        (w1, Some e) \<Rightarrow> (w1, Some e)
      | (w1, None) \<Rightarrow>
          (let w2 = (if verbose then
                       print (verbosePrefix @ '' '' @ getFileTypeStr ut dst follow @ '' ''
                              @ showPath (fst dst)) w1
                     else w1)
           in if \<not> dummyMode then fs_remove (fst dst) w2 else (w2, None)))"
| "removeEach ut [] verbose verbosePrefix follow dummyMode w = (w, None)"
| "removeEach ut (dst' # rest) verbose verbosePrefix follow dummyMode w =
     (case removeRecursive ut dst' verbose verbosePrefix follow dummyMode w of
        (w1, Some e) \<Rightarrow> (w1, Some e)
      | (w1, None) \<Rightarrow> removeEach ut rest verbose verbosePrefix follow dummyMode w1)"
  by pat_completeness auto

termination
  by (relation "measure (\<lambda>x. case x of
        Inl (ut, dst, rest) \<Rightarrow> size (snd dst)
      | Inr (ut, es, rest) \<Rightarrow> entriesWeight es)")
     (simp_all add: entriesWeight_Cons directory_iterator_weight)

text \<open>
  \<open>copyRecursive\<close>: copy a file or a directory with its contents into the directory
  \<open>dstpath\<close>. The source entry is the one read by the scan; the destination is read from
  the filesystem as it is when the function gets there. \<open>copyEach\<close> is the loop over
  the contents of a source directory.
\<close>

function copyRecursive :: "MiscUtils \<Rightarrow> entry \<Rightarrow> path \<Rightarrow> copy_options \<Rightarrow> bool \<Rightarrow> string \<Rightarrow> Params \<Rightarrow> bool
      \<Rightarrow> world \<Rightarrow> result"
  and copyEach :: "MiscUtils \<Rightarrow> entry list \<Rightarrow> path \<Rightarrow> copy_options \<Rightarrow> bool \<Rightarrow> string \<Rightarrow> Params \<Rightarrow> bool
      \<Rightarrow> world \<Rightarrow> result"
where
  "copyRecursive ut src dstpath options verbose verbosePrefix params dummyMode w =
     (if ignoreSrcFile (filename (fst src)) params then (w, None)
      else
        let dst = dstpath @ [filename (fst src)] in
        case (if overwrite_existing options \<and> fsExists (entryAt w dst)
                   \<and> (\<not> fsIsRegular src (followSymlinks params)
                        \<or> \<not> fsIsRegular (entryAt w dst) False) then
                removeRecursive ut (entryAt w dst) verbose (verbosePrefix @ '': Deleting'')
                  (followSymlinks params) dummyMode w
              else (w, None)) of
          (w1, Some e) \<Rightarrow> (w1, Some e)
        | (w1, None) \<Rightarrow>
            if is_directory src then
              (case mkDirs dst verbose (verbosePrefix @ '': Creating dir'') dummyMode w1 of
                 (w2, Some e) \<Rightarrow> (w2, Some e)
               | (w2, None) \<Rightarrow>
                   (case directory_iterator src of
                      Inl e \<Rightarrow> (w2, Some e)
                    | Inr entries \<Rightarrow>
                        copyEach ut entries dst options verbose verbosePrefix params dummyMode w2))
            else
              (let w2 = (if verbose then
                           print (verbosePrefix @ '' '' @ getFileTypeStr ut src (followSymlinks params)
                                  @ '' '' @ showPath (fst src) @ '' -> '' @ showPath dst) w1
                         else w1)
               in if \<not> dummyMode then fs_copy src dst options w2 else (w2, None)))"
| "copyEach ut [] dstpath options verbose verbosePrefix params dummyMode w = (w, None)"
| "copyEach ut (src' # rest) dstpath options verbose verbosePrefix params dummyMode w =
     (case copyRecursive ut src' dstpath options verbose verbosePrefix params dummyMode w of
        (w1, Some e) \<Rightarrow> (w1, Some e)
      | (w1, None) \<Rightarrow> copyEach ut rest dstpath options verbose verbosePrefix params dummyMode w1)"
  by pat_completeness auto

termination
  by (relation "measure (\<lambda>x. case x of
        Inl (ut, src, rest) \<Rightarrow> size (snd src)
      | Inr (ut, es, rest) \<Rightarrow> entriesWeight es)")
     (simp_all add: entriesWeight_Cons directory_iterator_weight)

text \<open>\<open>printDirectoryEntry\<close>, with \<open>printEach\<close> for its loop.\<close>

function printDirectoryEntry :: "MiscUtils \<Rightarrow> entry \<Rightarrow> string \<Rightarrow> string \<Rightarrow> Params \<Rightarrow> bool \<Rightarrow> bool \<Rightarrow> world \<Rightarrow> result"
  and printEach :: "MiscUtils \<Rightarrow> entry list \<Rightarrow> string \<Rightarrow> string \<Rightarrow> Params \<Rightarrow> bool \<Rightarrow> bool \<Rightarrow> world \<Rightarrow> result"
where
  "printDirectoryEntry ut entry prefix suffix params recursive src w =
     (if (if src then ignoreSrcFile (filename (fst entry)) params
          else ignoreDstFile (filename (fst entry)) params) then (w, None)
      else
        let w1 = print (prefix @ getFileTypeStr ut entry (followSymlinks params) @ '' ''
                        @ showPath (fst entry) @ suffix) w
        in
        if \<not> recursive \<or> \<not> is_directory entry then (w1, None)
        else
          (case directory_iterator entry of
             Inl e \<Rightarrow> (w1, Some e)
           | Inr entries \<Rightarrow> printEach ut entries prefix suffix params recursive src w1))"
| "printEach ut [] prefix suffix params recursive src w = (w, None)"
| "printEach ut (entry' # rest) prefix suffix params recursive src w =
     (case printDirectoryEntry ut entry' prefix suffix params recursive src w of
        (w1, Some e) \<Rightarrow> (w1, Some e)
      | (w1, None) \<Rightarrow> printEach ut rest prefix suffix params recursive src w1)"
  by pat_completeness auto

termination
  by (relation "measure (\<lambda>x. case x of
        Inl (ut, entry, rest) \<Rightarrow> size (snd entry)
      | Inr (ut, es, rest) \<Rightarrow> entriesWeight es)")
     (simp_all add: entriesWeight_Cons directory_iterator_weight)

declare removeRecursive.simps [simp del] copyRecursive.simps [simp del]
  printDirectoryEntry.simps [simp del]

section \<open>The action dispatcher\<close>

text \<open>\<open>TerminalColors\<close> and its constructor.\<close>

record TerminalColors =
  ins :: string
  del :: string
  nor :: string

definition makeTerminalColors :: "bool \<Rightarrow> TerminalColors" where
  "makeTerminalColors noColor =
     (if noColor then \<lparr>ins = [], del = [], nor = []\<rparr>
      else \<lparr>ins = CHR 0x1B # ''[32m'', del = CHR 0x1B # ''[31m'', nor = CHR 0x1B # ''[00m''\<rparr>)"

text \<open>
  The variables of \<open>main\<close> that its callbacks capture; \<open>new'\<close> and \<open>delete'\<close> are \<open>new_\<close>
  and \<open>delete_\<close>. \<open>preserve\<close> is the constant \<open>false\<close> there.
\<close>

record Config =
  verbose :: nat
  showMatches :: bool
  showSubtree :: bool
  dummyMode :: bool
  ignoreMtime :: bool
  copyIns :: path
  copyDel :: path
  new' :: bool
  delete' :: bool
  update :: bool
  diff :: bool
  col :: TerminalColors

definition preserve :: bool where
  "preserve = False"

definition copy_options_base :: "Params \<Rightarrow> copy_options" where
  "copy_options_base params =
     \<lparr>overwrite_existing = False, copy_symlinks = \<not> followSymlinks params\<rparr>"

text \<open>Running a step after one that did not throw.\<close>

definition andThen :: "result \<Rightarrow> (world \<Rightarrow> result) \<Rightarrow> result" where
  "andThen r f = (case r of (w, Some e) \<Rightarrow> (w, Some e) | (w, None) \<Rightarrow> f w)"

text \<open>The nine callbacks that \<open>main\<close> stores in \<open>params\<close>.\<close>

definition params_srcOnly :: "Config \<Rightarrow> MiscUtils \<Rightarrow> entry \<Rightarrow> path \<Rightarrow> Params \<Rightarrow> world \<Rightarrow> result" where
  "params_srcOnly cfg ut src dstpath params w =
     andThen
       (if diff cfg then
          andThen
            (printDirectoryEntry ut src (ins (col cfg) @ ''+ '') (nor (col cfg)) params
               (showSubtree cfg) True w)
            (\<lambda>w1.
               if copyIns cfg \<noteq> [] then
                 andThen
                   (mkDirs (copyIns cfg) (verbose cfg \<noteq> 0) ''Creating --copy-ins destination dir''
                      (dummyMode cfg) w1)
                   (copyRecursive ut src (copyIns cfg)
                      ((copy_options_base params)\<lparr>overwrite_existing := True\<rparr>)
                      (verbose cfg \<noteq> 0) ''Copying (--copy-ins)'' params (dummyMode cfg))
               else (w1, None))
        else (w, None))
       (\<lambda>w2.
          if new' cfg then
            copyRecursive ut src dstpath (copy_options_base params) (verbose cfg \<noteq> 0)
              ''Copying (new)'' params (dummyMode cfg) w2
          else (w2, None))"

definition params_dstOnly :: "Config \<Rightarrow> MiscUtils \<Rightarrow> path \<Rightarrow> entry \<Rightarrow> Params \<Rightarrow> world \<Rightarrow> result" where
  "params_dstOnly cfg ut srcpath dst params w =
     andThen
       (if diff cfg then
          andThen
            (printDirectoryEntry ut dst (del (col cfg) @ ''- '') (nor (col cfg)) params
               (showSubtree cfg) False w)
            (\<lambda>w1.
               if copyDel cfg \<noteq> [] then
                 andThen
                   (mkDirs (copyDel cfg) (verbose cfg \<noteq> 0) ''Creating --copy-del destination dir''
                      (dummyMode cfg) w1)
                   (copyRecursive ut dst (copyDel cfg)
                      ((copy_options_base params)\<lparr>overwrite_existing := True\<rparr>)
                      (verbose cfg \<noteq> 0) ''Copying (--copy-del)'' params (dummyMode cfg))
               else (w1, None))
        else (w, None))
       (\<lambda>w2.
          if delete' cfg then
            removeRecursive ut dst (verbose cfg \<noteq> 0) ''Deleting'' (followSymlinks params)
              (dummyMode cfg) w2
          else (w2, None))"

text \<open>The condition \<open>getLastWriteTime(src) > getLastWriteTime(dst)\<close>.\<close>

definition srcNewer :: "entry \<Rightarrow> entry \<Rightarrow> bool \<Rightarrow> error + bool" where
  "srcNewer src dst follow =
     (case getLastWriteTime src follow of
        Inl e \<Rightarrow> Inl e
      | Inr tsrc \<Rightarrow>
         (case getLastWriteTime dst follow of
            Inl e \<Rightarrow> Inl e
          | Inr tdst \<Rightarrow> Inr (tsrc > tdst)))"

definition params_match :: "Config \<Rightarrow> MiscUtils \<Rightarrow> entry \<Rightarrow> entry \<Rightarrow> Params \<Rightarrow> world \<Rightarrow> result" where
  "params_match cfg ut src dst params w =
     (let w1 = (if diff cfg \<and> showMatches cfg then
                  print (''= '' @ getFileTypeStr ut src (followSymlinks params) @ '' ''
                         @ showPath (fst src) @ '' and ''
                         @ getFileTypeStr ut dst (followSymlinks params) @ '' ''
                         @ showPath (fst dst)) w
                else w)
      in
      if update cfg then
        (if \<not> ignoreMtime cfg then
           (case srcNewer src dst (followSymlinks params) of
              Inl e \<Rightarrow> (w1, Some e)
            | Inr newer \<Rightarrow>
               if newer then
                 (if \<not> dummyMode cfg then
                    (if preserve then
                       (let w2 = (if verbose cfg \<noteq> 0 then
                                    print (''Updating mtime ''
                                           @ getFileTypeStr ut src (followSymlinks params) @ '' ''
                                           @ showPath (fst src) @ '' -> '' @ showPath (fst dst)) w1
                                  else w1)
                        in
                        if \<not> dummyMode cfg then
                          (case getLastWriteTime src (followSymlinks params) of
                             Inl e \<Rightarrow> (w2, Some e)
                           | Inr t \<Rightarrow> setLastWriteTime dst t (followSymlinks params) w2)
                        else (w2, None))
                     else (w1, None))
                  else (w1, None))
               else (w1, None))
         else (w1, None))
      else (w1, None))"

text \<open>The line that \<open>params.mismatch\<close> prints under \<open>diff\<close>.\<close>

definition mismatchLine :: "MiscUtils \<Rightarrow> entry \<Rightarrow> entry \<Rightarrow> Params \<Rightarrow> error + string" where
  "mismatchLine ut src dst params =
     (case (if getFileType src (followSymlinks params) = FT_SYMLINK then
              (case read_symlink src of
                 Inl e \<Rightarrow> Inl e
               | Inr starget \<Rightarrow>
                  (case read_symlink dst of
                     Inl e \<Rightarrow> Inl e
                   | Inr dtarget \<Rightarrow>
                      Inr ('' -> '' @ [CHR 0x22] @ starget @ [CHR 0x22],
                           '' -> '' @ [CHR 0x22] @ dtarget @ [CHR 0x22])))
            else
              (case file_size src of
                 Inl e \<Rightarrow> Inl e
               | Inr ssize \<Rightarrow>
                  (case file_size dst of
                     Inl e \<Rightarrow> Inl e
                   | Inr dsize \<Rightarrow>
                      if ssize \<noteq> dsize then
                        Inr ([], '' (size '' @ showNat ssize @ '' != '' @ showNat dsize @ '')'')
                      else Inr ([], '' (same size, different content)'')))) of
        Inl e \<Rightarrow> Inl e
      | Inr (srcInfo, dstInfo) \<Rightarrow>
          Inr (''Diff: '' @ getFileTypeStr ut src (followSymlinks params) @ '' ''
               @ showPath (fst src) @ srcInfo @ '' and ''
               @ getFileTypeStr ut dst (followSymlinks params) @ '' ''
               @ showPath (fst dst) @ dstInfo))"

definition params_mismatch :: "Config \<Rightarrow> MiscUtils \<Rightarrow> entry \<Rightarrow> entry \<Rightarrow> Params \<Rightarrow> world \<Rightarrow> result" where
  "params_mismatch cfg ut src dst params w =
     andThen
       (if diff cfg then
          (case mismatchLine ut src dst params of
             Inl e \<Rightarrow> (w, Some e)
           | Inr line \<Rightarrow> (print line w, None))
        else (w, None))
       (\<lambda>w1.
          if update cfg then
            (if ignoreMtime cfg then
               copyRecursive ut src (parent_path (fst dst))
                 ((copy_options_base params)\<lparr>overwrite_existing := True\<rparr>)
                 (verbose cfg \<noteq> 0) ''Copying (update)'' params (dummyMode cfg) w1
             else
               (case srcNewer src dst (followSymlinks params) of
                  Inl e \<Rightarrow> (w1, Some e)
                | Inr newer \<Rightarrow>
                   if newer then
                     copyRecursive ut src (parent_path (fst dst))
                       ((copy_options_base params)\<lparr>overwrite_existing := True\<rparr>)
                       (verbose cfg \<noteq> 0) ''Copying (update)'' params (dummyMode cfg) w1
                   else (w1, None)))
          else (w1, None))"

definition params_typeMismatch :: "Config \<Rightarrow> MiscUtils \<Rightarrow> entry \<Rightarrow> entry \<Rightarrow> Params \<Rightarrow> world \<Rightarrow> result" where
  "params_typeMismatch cfg ut src dst params w =
     (let w1 = (if diff cfg then
                  print (''Type mismatch: '' @ getFileTypeStr ut src (followSymlinks params)
                         @ '' '' @ showPath (fst src) @ '' and ''
                         @ getFileTypeStr ut dst (followSymlinks params) @ '' ''
                         @ showPath (fst dst)) w
                else w)
      in
      if update cfg then
        copyRecursive ut src (parent_path (fst dst))
          ((copy_options_base params)\<lparr>overwrite_existing := True\<rparr>)
          (verbose cfg \<noteq> 0) ''Copying (type mismatch)'' params (dummyMode cfg) w1
      else (w1, None))"

definition params_progressDirs :: "Config \<Rightarrow> entry \<Rightarrow> entry \<Rightarrow> Params \<Rightarrow> world \<Rightarrow> result" where
  "params_progressDirs cfg src dst params w =
     (if verbose cfg \<ge> 2 then
        (print (''Processing dirs '' @ showPath (fst src) @ '' and '' @ showPath (fst dst)) w, None)
      else (w, None))"

definition params_progressFiles :: "Config \<Rightarrow> MiscUtils \<Rightarrow> entry \<Rightarrow> entry \<Rightarrow> Params \<Rightarrow> world \<Rightarrow> result" where
  "params_progressFiles cfg ut src dst params w =
     (if verbose cfg \<ge> 3 then
        (print (''Processing '' @ getFileTypeStr ut src (followSymlinks params) @ '' ''
                @ showPath (fst src) @ '' and ''
                @ getFileTypeStr ut dst (followSymlinks params) @ '' ''
                @ showPath (fst dst)) w, None)
      else (w, None))"

definition params_ignoredDir :: "Config \<Rightarrow> entry \<Rightarrow> Params \<Rightarrow> world \<Rightarrow> result" where
  "params_ignoredDir cfg entry params w =
     (if diff cfg \<or> verbose cfg \<noteq> 0 then
        (print (''Ignoring dir '' @ showPath (fst entry)) w, None)
      else (w, None))"

definition params_ignoredFile :: "Config \<Rightarrow> MiscUtils \<Rightarrow> entry \<Rightarrow> Params \<Rightarrow> world \<Rightarrow> result" where
  "params_ignoredFile cfg ut entry params w =
     (if diff cfg \<or> verbose cfg \<noteq> 0 then
        (print (''Ignoring '' @ getFileTypeStr ut entry (followSymlinks params) @ '' ''
                @ showPath (fst entry)) w, None)
      else (w, None))"

text \<open>
  The callback that a call of a wrapper of \<open>TreeDiff\<close> runs, and the callbacks of a log
  in call order; an exception from a callback ends the traversal.
\<close>

fun dispatch :: "Config \<Rightarrow> MiscUtils \<Rightarrow> Params \<Rightarrow> event \<Rightarrow> world \<Rightarrow> result" where
  "dispatch cfg ut params (SrcOnly src dstpath) w = params_srcOnly cfg ut src dstpath params w"
| "dispatch cfg ut params (DstOnly srcpath dst) w = params_dstOnly cfg ut srcpath dst params w"
| "dispatch cfg ut params (Match src dst) w = params_match cfg ut src dst params w"
| "dispatch cfg ut params (Mismatch src dst) w = params_mismatch cfg ut src dst params w"
| "dispatch cfg ut params (TypeMismatch src dst) w = params_typeMismatch cfg ut src dst params w"
| "dispatch cfg ut params (ProgressDirs src dst) w = params_progressDirs cfg src dst params w"
| "dispatch cfg ut params (ProgressFiles src dst) w = params_progressFiles cfg ut src dst params w"
| "dispatch cfg ut params (IgnoredDir entry) w = params_ignoredDir cfg entry params w"
| "dispatch cfg ut params (IgnoredFile entry) w = params_ignoredFile cfg ut entry params w"

fun dispatchAll :: "Config \<Rightarrow> MiscUtils \<Rightarrow> Params \<Rightarrow> event list \<Rightarrow> world \<Rightarrow> result" where
  "dispatchAll cfg ut params [] w = (w, None)"
| "dispatchAll cfg ut params (ev # evs) w =
     andThen (dispatch cfg ut params ev w) (dispatchAll cfg ut params evs)"

declare compareEntries.simps [simp del] processDir.simps [simp del]

subsection \<open>The log and the verdict of a traversal\<close>

text \<open>
  The events a call appends to the log and the flag it returns, read off a call that
  starts with an empty log and a true flag; \<open>andFlag\<close> folds the flag a call started
  with into its result.
\<close>

definition andFlag :: "bool \<Rightarrow> error + bool \<Rightarrow> error + bool" where
  "andFlag nd r = (case r of Inl e \<Rightarrow> Inl e | Inr b \<Rightarrow> Inr (nd \<and> b))"

lemma andFlag_simps [simp]:
  "andFlag nd (Inl e) = Inl e" "andFlag nd (Inr b) = Inr (nd \<and> b)"
  by (simp_all add: andFlag_def)

lemma andFlag_andFlag [simp]: "andFlag a (andFlag b r) = andFlag (a \<and> b) r"
  by (cases r) auto

lemma andFlag_True [simp]: "andFlag True r = r"
  by (cases r) auto

definition processEvents :: "MiscUtils \<Rightarrow> Params \<Rightarrow> entry \<Rightarrow> entry \<Rightarrow> event list" where
  "processEvents ut params src dst = fst (processDir ut params src dst [])"
definition processResult :: "MiscUtils \<Rightarrow> Params \<Rightarrow> entry \<Rightarrow> entry \<Rightarrow> error + bool" where
  "processResult ut params src dst = snd (processDir ut params src dst [])"
definition mergeEvents :: "MiscUtils \<Rightarrow> Params \<Rightarrow> entry \<Rightarrow> entry \<Rightarrow> (string \<times> entry) list \<Rightarrow> (string \<times> entry) list \<Rightarrow> event list" where
  "mergeEvents ut params src dst a b = fst (mergeLoop ut params src dst a b True [])"
definition mergeResult :: "MiscUtils \<Rightarrow> Params \<Rightarrow> entry \<Rightarrow> entry \<Rightarrow> (string \<times> entry) list \<Rightarrow> (string \<times> entry) list \<Rightarrow> error + bool" where
  "mergeResult ut params src dst a b = snd (mergeLoop ut params src dst a b True [])"
definition compareEvents :: "MiscUtils \<Rightarrow> Params \<Rightarrow> entry \<Rightarrow> entry \<Rightarrow> event list" where
  "compareEvents ut params s d = fst (compareEntries ut params s d True [])"
definition compareResult :: "MiscUtils \<Rightarrow> Params \<Rightarrow> entry \<Rightarrow> entry \<Rightarrow> error + bool" where
  "compareResult ut params s d = snd (compareEntries ut params s d True [])"

fun isDifference :: "event \<Rightarrow> bool" where
  "isDifference (SrcOnly s p) = True"
| "isDifference (DstOnly p d) = True"
| "isDifference (Match s d) = False"
| "isDifference (Mismatch s d) = True"
| "isDifference (TypeMismatch s d) = True"
| "isDifference (ProgressDirs s d) = False"
| "isDifference (ProgressFiles s d) = False"
| "isDifference (IgnoredDir e) = False"
| "isDifference (IgnoredFile e) = False"

text \<open>The events of one key of the two maps of a directory.\<close>

definition keyEvents :: "MiscUtils \<Rightarrow> Params \<Rightarrow> entry \<Rightarrow> entry \<Rightarrow> (string \<times> entry) list \<Rightarrow> (string \<times> entry) list
    \<Rightarrow> string \<Rightarrow> event list" where
  "keyEvents ut params src dst srcmap dstmap k =
     (case (map_of srcmap k, map_of dstmap k) of
        (Some s, None) \<Rightarrow> [SrcOnly s (fst dst)]
      | (None, Some d) \<Rightarrow> [DstOnly (fst src) d]
      | (Some s, Some d) \<Rightarrow> compareEvents ut params s d
      | (None, None) \<Rightarrow> [])"

text \<open>
  The key a scanned entry is stored under, and the step of a scan loop with the test of
  the fork filter and the key as parameters: both scan loops are instances of it.
\<close>

definition entryKey :: "MiscUtils \<Rightarrow> Params \<Rightarrow> entry \<Rightarrow> string" where
  "entryKey ut params e =
     (if normalizeFilenames params then toNfd ut (filename (fst e)) else filename (fst e))"

definition scanWith :: "(entry \<Rightarrow> bool) \<Rightarrow> (entry \<Rightarrow> string) \<Rightarrow> (string \<times> entry) list \<Rightarrow> entry \<Rightarrow> (string \<times> entry) list" where
  "scanWith ig key m e = (if ig e then m else map_assign (key e) e m)"

text \<open>A configuration and helpers for concrete runs.\<close>

definition plainUtils :: MiscUtils where
  "plainUtils = \<lparr>toNfd = (\<lambda>s. s), getFileTypeStr = (\<lambda>e f. ''file'')\<rparr>"

definition plainParams :: Params where
  "plainParams = \<lparr>srcdir = [''s''], dstdir = [''d''], ignoreDirs = False, ignoreSpecial = False,
     ignoreForksSrc = False, ignoreForksDst = False, followSymlinks = False,
     ignoreContent = False, normalizeFilenames = False\<rparr>"

text \<open>A stand-in for canonical decomposition: it maps \<open>E\<close> to \<open>e\<close>.\<close>

definition toyNfd :: "string \<Rightarrow> string" where
  "toyNfd s = map (\<lambda>c. if c = CHR ''E'' then CHR ''e'' else c) s"

definition normUtils :: MiscUtils where
  "normUtils = \<lparr>toNfd = toyNfd, getFileTypeStr = (\<lambda>e f. ''file'')\<rparr>"

definition normParams :: Params where
  "normParams = plainParams\<lparr>normalizeFilenames := True\<rparr>"

text \<open>
  The parts of the state that dummy mode must leave as they are.
\<close>

definition sameTree :: "world \<Rightarrow> world \<Rightarrow> bool" where
  "sameTree w w' = (fs w' = fs w \<and> ops w' = ops w \<and> clock w' = clock w)"

text \<open>
  The removals of a recursive delete of an entry: the contents of a directory first, in
  scan order, each with its own contents before it, and the entry itself last.
\<close>

function removeOps :: "entry \<Rightarrow> op list" and removeOpsEach :: "entry list \<Rightarrow> op list" where
  "removeOps dst =
     (if fsIsDirectory dst False then
        (case directory_iterator dst of Inl e \<Rightarrow> [] | Inr entries \<Rightarrow> removeOpsEach entries)
      else []) @ [OpRemove (fst dst)]"
| "removeOpsEach [] = []"
| "removeOpsEach (dst' # rest) = removeOps dst' @ removeOpsEach rest"
  by pat_completeness auto

termination
  by (relation "measure (\<lambda>x. case x of Inl dst \<Rightarrow> size (snd dst) | Inr es \<Rightarrow> entriesWeight es)")
     (simp_all add: entriesWeight_Cons directory_iterator_weight)

declare removeOps.simps [simp del]

text \<open>
  The calls that remove, and the calls that create something at, or from, a path whose
  filename starts with the prefix of a fork.
\<close>

fun isRemove :: "op \<Rightarrow> bool" where
  "isRemove (OpRemove p) = True"
| "isRemove c = False"

definition createsFork :: "op \<Rightarrow> bool" where
  "createsFork c =
     (case c of
        OpCopy from to options \<Rightarrow> hasPrefix (filename from) ''._'' \<or> hasPrefix (filename to) ''._''
      | OpCreateDirectories p \<Rightarrow> hasPrefix (filename p) ''._''
      | _ \<Rightarrow> False)"

text \<open>
  A filesystem and configurations for concrete runs.
\<close>

definition exampleWorld :: world where
  "exampleWorld =
     \<lparr>fs = Dir 0
        [(''s'', Dir 0 [(''a'', Regular 5 ''hello''), (''x'', Regular 1 ''new'')]),
         (''d'', Dir 0 [(''a'', Regular 7 ''HELLO''), (''x'', Dir 2 [(''y'', Regular 2 ''old'')])]),
         (''o'', Dir 0 [])],
      out = [], ops = [], clock = 9\<rparr>"

definition baseConfig :: Config where
  "baseConfig =
     \<lparr>verbose = 1, showMatches = False, showSubtree = False, dummyMode = False,
      ignoreMtime = False, copyIns = [], copyDel = [], new' = False, delete' = False,
      update = False, diff = False, col = makeTerminalColors True\<rparr>"

definition updateConfig :: Config where
  "updateConfig = baseConfig\<lparr>new' := True, update := True\<rparr>"

definition insWorld :: world where
  "insWorld =
     \<lparr>fs = Dir 0
        [(''s'', Dir 0 [(''a'', Regular 5 ''hello'')]),
         (''d'', Dir 0 []),
         (''o'', Dir 0 [])],
      out = [], ops = [], clock = 9\<rparr>"

definition insConfig :: Config where
  "insConfig = baseConfig\<lparr>diff := True, copyIns := [''o'']\<rparr>"


lemmas cb_defs = srcOnly_def dstOnly_def match_def mismatch_def typeMismatch_def progressDirs_def
  progressFiles_def ignoredDir_def ignoredFile_def

lemma frame_all:
  "\<forall>l. processDir ut params src dst l = (l @ processEvents ut params src dst, processResult ut params src dst)"
  "\<forall>nd l. mergeLoop ut params src dst a b nd l = (l @ mergeEvents ut params src dst a b, andFlag nd (mergeResult ut params src dst a b))"
  "\<forall>nd l. compareEntries ut params s d nd l = (l @ compareEvents ut params s d, andFlag nd (compareResult ut params s d))"
proof (induct rule: processDir_mergeLoop_compareEntries.induct
   [where P = "\<lambda>ut params src dst _. \<forall>l. processDir ut params src dst l = (l @ processEvents ut params src dst, processResult ut params src dst)"
      and Q = "\<lambda>ut params src dst a b _ _. \<forall>nd l. mergeLoop ut params src dst a b nd l = (l @ mergeEvents ut params src dst a b, andFlag nd (mergeResult ut params src dst a b))"
      and R = "\<lambda>ut params s d _ _. \<forall>nd l. compareEntries ut params s d nd l = (l @ compareEvents ut params s d, andFlag nd (compareResult ut params s d))"])
  case (1 ut params src dst log0)
  show ?case
  proof (cases "readSrcDir ut params src")
    case (Inl e)
    then show ?thesis
      by (simp add: processEvents_def processResult_def cb_defs processDir.simps)
  next
    case S: (Inr srcmap)
    show ?thesis
    proof (cases "readDstDir ut params dst")
      case (Inl e)
      then show ?thesis
        by (simp add: processEvents_def processResult_def cb_defs processDir.simps S)
    next
      case D: (Inr dstmap)
      note IH = 1 [OF refl S D]
      show ?thesis
        by (simp add: processEvents_def processResult_def cb_defs processDir.simps S D IH)
    qed
  qed
next
  case (2 ut params src dst noDifferenceFound log)
  show ?case by (simp add: mergeEvents_def mergeResult_def)
next
  case (3 ut params src dst ks s itsrc noDifferenceFound log)
  show ?case 
    by (simp add: mergeEvents_def [of _ _ _ _ "_ # _"] mergeResult_def [of _ _ _ _ "_ # _"] 3 cb_defs) 
next
  case (4 ut params src dst kd d itdst noDifferenceFound log)
  show ?case 
    by (simp add: mergeEvents_def [of _ _ _ _ _ "_ # _"] mergeResult_def [of _ _ _ _ _ "_ # _"] 4 cb_defs) 
next
  case (5 ut params src dst ks s itsrc kd d itdst noDifferenceFound log)
  consider (lt) "ks < kd" | (gt) "\<not> ks < kd" "kd < ks" | (eq) "\<not> ks < kd" "\<not> kd < ks" by blast
  then show ?case
  proof cases
    case lt
    show ?thesis 
      by (simp add: mergeEvents_def [of _ _ _ _ "_ # _" "_ # _"] mergeResult_def [of _ _ _ _ "_ # _" "_ # _"] lt 5(1) [OF lt] cb_defs)
  next
    case gt
    show ?thesis 
      by (simp add: mergeEvents_def [of _ _ _ _ "_ # _" "_ # _"] mergeResult_def [of _ _ _ _ "_ # _" "_ # _"] gt 5(2) [OF gt] cb_defs)
  next
    case eq
    note C = 5(3) [OF eq]
    show ?thesis
    proof (cases "compareResult ut params s d")
      case (Inl e)
      then show ?thesis
      by (simp add: mergeEvents_def [of _ _ _ _ "_ # _" "_ # _"] mergeResult_def [of _ _ _ _ "_ # _" "_ # _"] eq C)
    next
      case (Inr r)
      have IH: "\<forall>nd l. mergeLoop ut params src dst itsrc itdst nd l =
           (l @ mergeEvents ut params src dst itsrc itdst, andFlag nd (mergeResult ut params src dst itsrc itdst))"
        using 5(4) [OF eq, of "log @ compareEvents ut params s d" "Inr (noDifferenceFound \<and> r)" "noDifferenceFound \<and> r"]
        by (simp add: C Inr)
      show ?thesis
      by (simp add: mergeEvents_def [of _ _ _ _ "_ # _" "_ # _"] mergeResult_def [of _ _ _ _ "_ # _" "_ # _"] eq C Inr IH conj_assoc)
    qed
  qed
next
  case (6 ut params s d noDifferenceFound log)
  show ?case
  proof (cases "getFileType s (followSymlinks params) = FT_DIR \<and> getFileType d (followSymlinks params) = FT_DIR \<and> \<not> ignoreDirs params")
    case True
    have IH: "\<forall>l. processDir ut params s d l = (l @ processEvents ut params s d, processResult ut params s d)"
      using 6 [OF refl refl _ refl refl] True by simp
    show ?thesis using True
      by (simp add: compareEvents_def compareResult_def compareEntries.simps IH split: sum.splits)
  next
    case False
    show ?thesis
    proof (cases "getFileType s (followSymlinks params) = getFileType d (followSymlinks params)")
      case ne: False
      then show ?thesis
        by (simp add: compareEvents_def compareResult_def compareEntries.simps Let_def cb_defs)
    next
      case same: True
      show ?thesis using False same
        by (cases "getFileType s (followSymlinks params)")
           (simp_all add: compareEvents_def compareResult_def compareEntries.simps Let_def cb_defs split: sum.splits)
    qed
  qed
qed

lemma processDir_frame:
  "processDir ut params src dst l = (l @ processEvents ut params src dst, processResult ut params src dst)"
  using frame_all(1) by blast

lemma mergeLoop_frame:
  "mergeLoop ut params src dst a b nd l =
     (l @ mergeEvents ut params src dst a b, andFlag nd (mergeResult ut params src dst a b))"
  using frame_all(2) by blast

lemma compareEntries_frame:
  "compareEntries ut params s d nd l =
     (l @ compareEvents ut params s d, andFlag nd (compareResult ut params s d))"
  using frame_all(3) by blast

lemma mergeEvents_Nil_Nil: "mergeEvents ut params src dst [] [] = []"
  and mergeResult_Nil_Nil: "mergeResult ut params src dst [] [] = Inr True"
  by (simp_all add: mergeEvents_def mergeResult_def)

lemma mergeEvents_Cons_Nil:
  "mergeEvents ut params src dst ((ks, s) # a) [] = SrcOnly s (fst dst) # mergeEvents ut params src dst a []"
  and mergeResult_Cons_Nil:
  "mergeResult ut params src dst ((ks, s) # a) [] = andFlag False (mergeResult ut params src dst a [])"
  by (simp_all add: mergeEvents_def [of _ _ _ _ "_ # _"] mergeResult_def [of _ _ _ _ "_ # _"])
     (simp_all add: mergeLoop_frame cb_defs)

lemma mergeEvents_Nil_Cons:
  "mergeEvents ut params src dst [] ((kd, d) # b) = DstOnly (fst src) d # mergeEvents ut params src dst [] b"
  and mergeResult_Nil_Cons:
  "mergeResult ut params src dst [] ((kd, d) # b) = andFlag False (mergeResult ut params src dst [] b)"
  by (simp_all add: mergeEvents_def [of _ _ _ _ _ "_ # _"] mergeResult_def [of _ _ _ _ _ "_ # _"])
     (simp_all add: mergeLoop_frame cb_defs)

lemma mergeEvents_less:
  "ks < kd \<Longrightarrow> mergeEvents ut params src dst ((ks, s) # a) ((kd, d) # b)
     = SrcOnly s (fst dst) # mergeEvents ut params src dst a ((kd, d) # b)"
  and mergeResult_less:
  "ks < kd \<Longrightarrow> mergeResult ut params src dst ((ks, s) # a) ((kd, d) # b)
     = andFlag False (mergeResult ut params src dst a ((kd, d) # b))"
  by (simp_all add: mergeEvents_def [of _ _ _ _ "_ # _" "_ # _"] mergeResult_def [of _ _ _ _ "_ # _" "_ # _"])
     (simp_all add: mergeLoop_frame cb_defs)

lemma mergeEvents_greater:
  assumes "kd < ks"
  shows "mergeEvents ut params src dst ((ks, s) # a) ((kd, d) # b)
     = DstOnly (fst src) d # mergeEvents ut params src dst ((ks, s) # a) b"
  and mergeResult_greater: "mergeResult ut params src dst ((ks, s) # a) ((kd, d) # b)
     = andFlag False (mergeResult ut params src dst ((ks, s) # a) b)"
proof -
  have n: "\<not> ks < kd" using assms by simp
  have "mergeLoop ut params src dst ((ks, s) # a) ((kd, d) # b) True []
      = mergeLoop ut params src dst ((ks, s) # a) b False (dstOnly (fst src) d [])"
    using assms n by simp
  then show "mergeEvents ut params src dst ((ks, s) # a) ((kd, d) # b)
     = DstOnly (fst src) d # mergeEvents ut params src dst ((ks, s) # a) b"
    and "mergeResult ut params src dst ((ks, s) # a) ((kd, d) # b)
     = andFlag False (mergeResult ut params src dst ((ks, s) # a) b)"
    unfolding mergeEvents_def [of _ _ _ _ "_ # _" "_ # _"] mergeResult_def [of _ _ _ _ "_ # _" "_ # _"]
    by (simp_all add: mergeLoop_frame cb_defs)
qed

lemma mergeEvents_equal:
  "mergeEvents ut params src dst ((k, s) # a) ((k, d) # b)
     = compareEvents ut params s d @
       (case compareResult ut params s d of Inl e \<Rightarrow> [] | Inr r \<Rightarrow> mergeEvents ut params src dst a b)"
  and mergeResult_equal:
  "mergeResult ut params src dst ((k, s) # a) ((k, d) # b)
     = (case compareResult ut params s d of Inl e \<Rightarrow> Inl e
        | Inr r \<Rightarrow> andFlag r (mergeResult ut params src dst a b))"
  by (simp_all add: mergeEvents_def [of _ _ _ _ "_ # _" "_ # _"] mergeResult_def [of _ _ _ _ "_ # _" "_ # _"]
      compareEntries_frame)
     (simp_all add: mergeLoop_frame split: sum.splits)

lemma processEvents_unfold:
  "processEvents ut params src dst = ProgressDirs src dst #
     (case readSrcDir ut params src of Inl e \<Rightarrow> []
      | Inr srcmap \<Rightarrow>
         (case readDstDir ut params dst of Inl e \<Rightarrow> []
          | Inr dstmap \<Rightarrow> mergeEvents ut params src dst srcmap dstmap))"
  and processResult_unfold:
  "processResult ut params src dst =
     (case readSrcDir ut params src of Inl e \<Rightarrow> Inl e
      | Inr srcmap \<Rightarrow>
         (case readDstDir ut params dst of Inl e \<Rightarrow> Inl e
          | Inr dstmap \<Rightarrow> mergeResult ut params src dst srcmap dstmap))"
  by (simp_all add: processEvents_def processResult_def processDir.simps mergeLoop_frame cb_defs
      split: sum.splits)

lemma nodeType_resolve_not_symlink: "nodeType (resolve n) \<noteq> FT_SYMLINK"
  by (induction n rule: resolve.induct) auto

lemma resolve_idem: "resolve (resolve n) = resolve n"
  by (induction n rule: resolve.induct) auto

lemma resolve_not_symlink: "nodeType n \<noteq> FT_SYMLINK \<Longrightarrow> resolve n = n"
  by (cases n) auto

lemma getFileType_resolve:
  "getFileType e f = t \<Longrightarrow> t \<noteq> FT_SYMLINK \<Longrightarrow> nodeType (resolve (snd e)) = t"
  by (cases f) (auto simp: getFileType_def resolve_not_symlink)

lemma getFileType_symlink:
  "getFileType e f = FT_SYMLINK \<Longrightarrow> \<exists>m t n. snd e = Symlink m t n"
  by (cases f; cases "snd e") (auto simp: getFileType_def nodeType_resolve_not_symlink)

lemma nodeType_REGULAR: "nodeType n = FT_REGULAR \<Longrightarrow> \<exists>m c. n = Regular m c"
  by (cases n) auto

lemma nodeType_DIR: "nodeType n = FT_DIR \<Longrightarrow> \<exists>m cs. n = Dir m cs"
  by (cases n) auto

lemma nodeType_BLOCK: "nodeType n = FT_BLOCK \<Longrightarrow> \<exists>m r. n = BlockDev m r"
  by (cases n) auto

lemma nodeType_CHAR: "nodeType n = FT_CHAR \<Longrightarrow> \<exists>m r. n = CharDev m r"
  by (cases n) auto

lemma file_size_regular:
  "getFileType e f = FT_REGULAR \<Longrightarrow> \<exists>c. readFile e = Inr c \<and> file_size e = Inr (length c)"
  using getFileType_resolve [of e f FT_REGULAR] nodeType_REGULAR [of "resolve (snd e)"]
  by (auto simp: readFile_def file_size_def)

lemma sameRegular_regular:
  assumes "getFileType s f = FT_REGULAR" "getFileType d f = FT_REGULAR"
  shows "sameRegular params s d =
     Inr (file_size s = file_size d \<and> (ignoreContent params \<or> readFile s = readFile d))"
  using file_size_regular [OF assms(1)] file_size_regular [OF assms(2)]
  by (auto simp: sameRegular_def)

lemma sameSymlink_symlink:
  assumes "getFileType s f = FT_SYMLINK" "getFileType d f = FT_SYMLINK"
  shows "sameSymlink s d = Inr (read_symlink s = read_symlink d)"
  using getFileType_symlink [OF assms(1)] getFileType_symlink [OF assms(2)]
  by (auto simp: sameSymlink_def read_symlink_def)

lemma getRDev_device:
  "getFileType e f = FT_BLOCK \<or> getFileType e f = FT_CHAR \<Longrightarrow> \<exists>r. getRDev e = Inr r"
  using getFileType_resolve [of e f FT_BLOCK] nodeType_BLOCK [of "resolve (snd e)"]
    getFileType_resolve [of e f FT_CHAR] nodeType_CHAR [of "resolve (snd e)"]
  by (auto simp: getRDev_def)

lemma sameRDev_device:
  assumes "getFileType s f = FT_BLOCK \<or> getFileType s f = FT_CHAR"
    "getFileType d f = FT_BLOCK \<or> getFileType d f = FT_CHAR"
  shows "sameRDev s d = Inr (getRDev s = getRDev d)"
  using getRDev_device [OF assms(1)] getRDev_device [OF assms(2)]
  by (auto simp: sameRDev_def)

lemma is_directory_readSrcDir:
  "is_directory src \<Longrightarrow> \<exists>srcmap. readSrcDir ut params src = Inr srcmap"
  using nodeType_DIR [of "resolve (snd src)"]
  by (auto simp: is_directory_def readSrcDir_def directory_iterator_def)

lemma is_directory_readDstDir:
  "\<not> fsExists dst \<or> is_directory dst \<Longrightarrow> \<exists>dstmap. readDstDir ut params dst = Inr dstmap"
  using nodeType_DIR [of "resolve (snd dst)"]
  by (auto simp: is_directory_def readDstDir_def directory_iterator_def)

lemma getFileType_DIR_is_directory: "getFileType e f = FT_DIR \<Longrightarrow> is_directory e"
  using getFileType_resolve [of e f FT_DIR] by (simp add: is_directory_def)

lemma compareEntries_typeMismatch:
  "getFileType s (followSymlinks params) \<noteq> getFileType d (followSymlinks params) \<Longrightarrow>
   compareEntries ut params s d nd log = (log @ [TypeMismatch s d], Inr False)"
  by (simp add: compareEntries.simps Let_def cb_defs)

lemma compareEntries_regular:
  assumes "getFileType s (followSymlinks params) = FT_REGULAR"
    and "getFileType d (followSymlinks params) = FT_REGULAR"
  shows "compareEntries ut params s d nd log =
     (if file_size s = file_size d \<and> (ignoreContent params \<or> readFile s = readFile d)
      then (log @ [ProgressFiles s d, Match s d], Inr nd)
      else (log @ [ProgressFiles s d, Mismatch s d], Inr False))"
  using assms by (simp add: compareEntries.simps Let_def cb_defs sameRegular_regular [OF assms])

lemma compareEntries_dir:
  assumes "getFileType s (followSymlinks params) = FT_DIR"
    and "getFileType d (followSymlinks params) = FT_DIR"
  shows "compareEntries ut params s d nd log =
     (if \<not> ignoreDirs params then
        (log @ processEvents ut params s d, andFlag nd (processResult ut params s d))
      else (log @ [IgnoredDir s, IgnoredDir d], Inr nd))"
  using assms by (cases "processResult ut params s d")
    (simp_all add: compareEntries.simps Let_def cb_defs processDir_frame)

lemma compareEntries_symlink:
  assumes "getFileType s (followSymlinks params) = FT_SYMLINK"
    and "getFileType d (followSymlinks params) = FT_SYMLINK"
  shows "compareEntries ut params s d nd log =
     (if read_symlink s = read_symlink d
      then (log @ [ProgressFiles s d, Match s d], Inr nd)
      else (log @ [ProgressFiles s d, Mismatch s d], Inr False))"
  using assms by (simp add: compareEntries.simps Let_def cb_defs sameSymlink_symlink [OF assms])

lemma compareEntries_fifo_socket:
  assumes "getFileType s (followSymlinks params) = t" "getFileType d (followSymlinks params) = t"
    and "t = FT_FIFO \<or> t = FT_SOCKET"
  shows "compareEntries ut params s d nd log =
     (if \<not> ignoreSpecial params then (log @ [ProgressFiles s d, Match s d], Inr nd)
      else (log @ [ProgressFiles s d, IgnoredFile s, IgnoredFile d], Inr nd))"
  using assms by (auto simp add: compareEntries.simps Let_def cb_defs)

lemma compareEntries_device:
  assumes "getFileType s (followSymlinks params) = t" "getFileType d (followSymlinks params) = t"
    and "t = FT_BLOCK \<or> t = FT_CHAR"
  shows "compareEntries ut params s d nd log =
     (if \<not> ignoreSpecial params then
        (if getRDev s = getRDev d then (log @ [ProgressFiles s d, Match s d], Inr nd)
         else (log @ [ProgressFiles s d, Mismatch s d], Inr False))
      else (log @ [ProgressFiles s d, IgnoredFile s, IgnoredFile d], Inr nd))"
proof -
  have "sameRDev s d = Inr (getRDev s = getRDev d)"
    using assms by (intro sameRDev_device [of _ "followSymlinks params"]) auto
  then show ?thesis using assms by (auto simp add: compareEntries.simps Let_def cb_defs)
qed

lemma compareEntries_non_existing:
  assumes "getFileType s (followSymlinks params) = FT_NON_EXISTING"
    and "getFileType d (followSymlinks params) = FT_NON_EXISTING"
  shows "compareEntries ut params s d nd log =
     (log @ [ProgressFiles s d, IgnoredFile s, IgnoredFile d], Inr nd)"
  using assms by (simp add: compareEntries.simps Let_def cb_defs)

lemma compare_views:
  "compareEvents ut params s d = fst (compareEntries ut params s d True [])"
  "compareResult ut params s d = snd (compareEntries ut params s d True [])"
  by (simp_all add: compareEvents_def compareResult_def)

lemma verdict_all:
  "(is_directory src \<and> (\<not> fsExists dst \<or> is_directory dst) \<longrightarrow>
      processResult ut params src dst = Inr (\<forall>e\<in>set (processEvents ut params src dst). \<not> isDifference e))"
  "mergeResult ut params src dst a b = Inr (\<forall>e\<in>set (mergeEvents ut params src dst a b). \<not> isDifference e)"
  "compareResult ut params s d = Inr (\<forall>e\<in>set (compareEvents ut params s d). \<not> isDifference e)"
proof (induct rule: processDir_mergeLoop_compareEntries.induct
   [where P = "\<lambda>ut params src dst _. (is_directory src \<and> (\<not> fsExists dst \<or> is_directory dst) \<longrightarrow>
      processResult ut params src dst = Inr (\<forall>e\<in>set (processEvents ut params src dst). \<not> isDifference e))"
      and Q = "\<lambda>ut params src dst a b _ _. mergeResult ut params src dst a b = Inr (\<forall>e\<in>set (mergeEvents ut params src dst a b). \<not> isDifference e)"
      and R = "\<lambda>ut params s d _ _. compareResult ut params s d = Inr (\<forall>e\<in>set (compareEvents ut params s d). \<not> isDifference e)"])
  case (1 ut params src dst log0)
  show ?case
  proof (intro impI)
    assume ok: "is_directory src \<and> (\<not> fsExists dst \<or> is_directory dst)"
    obtain srcmap where S: "readSrcDir ut params src = Inr srcmap"
      using ok is_directory_readSrcDir by blast
    obtain dstmap where D: "readDstDir ut params dst = Inr dstmap"
      using ok is_directory_readDstDir by blast
    show "processResult ut params src dst = Inr (\<forall>e\<in>set (processEvents ut params src dst). \<not> isDifference e)"
      using 1 [OF refl S D] by (simp add: processEvents_unfold processResult_unfold S D)
  qed
next
  case (2 ut params src dst noDifferenceFound log)
  show ?case by (simp add: mergeEvents_Nil_Nil mergeResult_Nil_Nil)
next
  case (3 ut params src dst ks s itsrc noDifferenceFound log)
  then show ?case by (simp add: mergeEvents_Cons_Nil mergeResult_Cons_Nil)
next
  case (4 ut params src dst kd d itdst noDifferenceFound log)
  then show ?case by (simp add: mergeEvents_Nil_Cons mergeResult_Nil_Cons)
next
  case (5 ut params src dst ks s itsrc kd d itdst noDifferenceFound log)
  consider (lt) "ks < kd" | (gt) "\<not> ks < kd" "kd < ks" | (eq) "\<not> ks < kd" "\<not> kd < ks" by blast
  then show ?case
  proof cases
    case lt
    then show ?thesis using 5(1) by (simp add: mergeEvents_less mergeResult_less)
  next
    case gt
    then show ?thesis using 5(2) by (simp add: mergeEvents_greater mergeResult_greater)
  next
    case eq
    then have k: "ks = kd" by simp
    note C = 5(3) [OF eq]
    have "mergeResult ut params src dst itsrc itdst = Inr (\<forall>e\<in>set (mergeEvents ut params src dst itsrc itdst). \<not> isDifference e)"
      using 5(4) [OF eq, of "fst (compareEntries ut params s d noDifferenceFound log)"
          "snd (compareEntries ut params s d noDifferenceFound log)"
          "noDifferenceFound \<and> (\<forall>e\<in>set (compareEvents ut params s d). \<not> isDifference e)"]
      by (simp add: compareEntries_frame C)
    then show ?thesis
      by (simp add: k mergeEvents_equal mergeResult_equal C ball_Un)
  qed
next
  case (6 ut params s d noDifferenceFound log)
  let ?f = "followSymlinks params"
  show ?case
  proof (cases "getFileType s ?f = getFileType d ?f")
    case False
    then show ?thesis by (simp add: compare_views compareEntries_typeMismatch)
  next
    case same: True
    show ?thesis
    proof (cases "getFileType s ?f")
      case FT_REGULAR
      then show ?thesis using same by (simp add: compare_views compareEntries_regular)
    next
      case FT_DIR
      show ?thesis
      proof (cases "ignoreDirs params")
        case True
        then show ?thesis using same FT_DIR by (simp add: compare_views compareEntries_dir)
      next
        case False
        have sd: "is_directory s" "is_directory d"
          using FT_DIR same getFileType_DIR_is_directory by auto
        have "processResult ut params s d = Inr (\<forall>e\<in>set (processEvents ut params s d). \<not> isDifference e)"
          using 6 [OF refl refl _ refl refl] same FT_DIR False sd by simp
        then show ?thesis using same FT_DIR False by (simp add: compare_views compareEntries_dir)
      qed
    next
      case FT_SYMLINK
      then show ?thesis using same by (simp add: compare_views compareEntries_symlink)
    next
      case FT_FIFO
      then show ?thesis using same
        by (simp add: compare_views compareEntries_fifo_socket [of _ _ FT_FIFO])
    next
      case FT_SOCKET
      then show ?thesis using same
        by (simp add: compare_views compareEntries_fifo_socket [of _ _ FT_SOCKET])
    next
      case FT_BLOCK
      then show ?thesis using same
        by (simp add: compare_views compareEntries_device [of _ _ FT_BLOCK])
    next
      case FT_CHAR
      then show ?thesis using same
        by (simp add: compare_views compareEntries_device [of _ _ FT_CHAR])
    next
      case FT_NON_EXISTING
      then show ?thesis using same by (simp add: compare_views compareEntries_non_existing)
    qed
  qed
qed

lemma compareResult_Inr: "\<exists>r. compareResult ut params s d = Inr r"
  using verdict_all(3) by blast

lemma mergeEvents_same:
  "mergeEvents ut params src dst ((k, s) # a) ((k, d) # b)
     = compareEvents ut params s d @ mergeEvents ut params src dst a b"
  using compareResult_Inr [of ut params s d] by (auto simp: mergeEvents_equal)

lemma sorted_list_of_set_least:
  assumes "finite S" and "\<forall>x\<in>S. k < x"
  shows "sorted_list_of_set (insert k S) = k # sorted_list_of_set S"
proof -
  have "k \<notin> S" using assms(2) by auto
  then have "sorted_list_of_set (insert k S) = insort k (sorted_list_of_set S)"
    using assms(1) by simp
  also have "\<dots> = k # sorted_list_of_set S"
    using assms by (intro insort_is_Cons) (auto simp: less_imp_le)
  finally show ?thesis .
qed

lemma keyEvents_cong:
  "map_of a k = map_of a' k \<Longrightarrow> map_of b k = map_of b' k \<Longrightarrow>
   keyEvents ut params src dst a b k = keyEvents ut params src dst a' b' k"
  by (simp add: keyEvents_def)

lemma map_of_absent: "k \<notin> fst ` set m \<Longrightarrow> map_of m k = None"
  by (simp add: map_of_eq_None_iff)

lemma mergeEvents_decompose:
  assumes "sorted_wrt (<) (map fst a)" and "sorted_wrt (<) (map fst b)"
  shows "mergeEvents ut params src dst a b =
     concat (map (keyEvents ut params src dst a b) (sorted_list_of_set (fst ` set a \<union> fst ` set b)))"
  using assms
proof (induction "length a + length b" arbitrary: a b rule: less_induct)
  case less
  let ?K = "\<lambda>a b. sorted_list_of_set (fst ` set a \<union> fst ` set b)"
  let ?E = "keyEvents ut params src dst"
  have step: "mergeEvents ut params src dst a b = concat (map (?E a b) (?K a b))"
    if hd: "fst ` set a \<union> fst ` set b = insert k (fst ` set a' \<union> fst ` set b')"
      and least: "\<forall>x\<in>fst ` set a' \<union> fst ` set b'. k < x"
      and ev: "mergeEvents ut params src dst a b = ?E a b k @ mergeEvents ut params src dst a' b'"
      and mo: "\<forall>x. x \<noteq> k \<longrightarrow> map_of a x = map_of a' x \<and> map_of b x = map_of b' x"
      and sm: "length a' + length b' < length a + length b"
      and so: "sorted_wrt (<) (map fst a')" "sorted_wrt (<) (map fst b')"
    for k a' b'
  proof -
    have K: "?K a b = k # ?K a' b'"
      using sorted_list_of_set_least [of "fst ` set a' \<union> fst ` set b'" k] least hd by simp
    have M: "map (?E a b) (?K a' b') = map (?E a' b') (?K a' b')"
    proof (rule map_cong [OF refl])
      fix x assume "x \<in> set (?K a' b')"
      then have "x \<in> fst ` set a' \<union> fst ` set b'" by simp
      then have "x \<noteq> k" using least by auto
      then show "?E a b x = ?E a' b' x" using mo by (intro keyEvents_cong) auto
    qed
    have "mergeEvents ut params src dst a b = ?E a b k @ concat (map (?E a' b') (?K a' b'))"
      using ev less.hyps [OF sm so] by simp
    also have "\<dots> = concat (map (?E a b) (k # ?K a' b'))"
      by (simp only: list.map concat.simps M)
    finally show ?thesis by (simp only: K)
  qed
  show ?case
  proof (cases a)
    case Nil note a = this
    show ?thesis
    proof (cases b)
      case Nil
      then show ?thesis using a by (simp add: mergeEvents_Nil_Nil)
    next
      case (Cons y b')
      obtain kd d where y: "y = (kd, d)" by (cases y)
      show ?thesis
      proof (rule step [of kd "[]" b'])
        show "fst ` set a \<union> fst ` set b = insert kd (fst ` set [] \<union> fst ` set b')"
          using a Cons y by simp
        show "\<forall>x\<in>fst ` set [] \<union> fst ` set b'. kd < x"
          using less.prems(2) Cons y by auto
        show "mergeEvents ut params src dst a b = ?E a b kd @ mergeEvents ut params src dst [] b'"
          using a Cons y by (simp add: mergeEvents_Nil_Cons keyEvents_def)
        show "\<forall>x. x \<noteq> kd \<longrightarrow> map_of a x = map_of [] x \<and> map_of b x = map_of b' x"
          using a Cons y by simp
        show "length [] + length b' < length a + length b" using a Cons by simp
        show "sorted_wrt (<) (map fst [])" by simp
        show "sorted_wrt (<) (map fst b')" using less.prems(2) Cons by simp
      qed
    qed
  next
    case (Cons x a') note a = this
    obtain ks s where x: "x = (ks, s)" by (cases x)
    have sa: "sorted_wrt (<) (map fst a')" and la: "\<forall>x\<in>fst ` set a'. ks < x"
      using less.prems(1) a x by auto
    show ?thesis
    proof (cases b)
      case Nil
      show ?thesis
      proof (rule step [of ks a' "[]"])
        show "fst ` set a \<union> fst ` set b = insert ks (fst ` set a' \<union> fst ` set [])"
          using a Nil x by simp
        show "\<forall>x\<in>fst ` set a' \<union> fst ` set []. ks < x" using la by simp
        show "mergeEvents ut params src dst a b = ?E a b ks @ mergeEvents ut params src dst a' []"
          using a Nil x by (simp add: mergeEvents_Cons_Nil keyEvents_def)
        show "\<forall>x. x \<noteq> ks \<longrightarrow> map_of a x = map_of a' x \<and> map_of b x = map_of [] x"
          using a Nil x by simp
        show "length a' + length [] < length a + length b" using a Nil by simp
        show "sorted_wrt (<) (map fst a')" by (rule sa)
        show "sorted_wrt (<) (map fst [])" by simp
      qed
    next
      case (Cons y b') note b = this
      obtain kd d where y: "y = (kd, d)" by (cases y)
      have sb: "sorted_wrt (<) (map fst b')" and lb: "\<forall>x\<in>fst ` set b'. kd < x"
        using less.prems(2) b y by auto
      consider (lt) "ks < kd" | (gt) "kd < ks" | (eq) "ks = kd" by fastforce
      then show ?thesis
      proof cases
        case lt
        have nb: "ks \<notin> fst ` set b" using lt lb b y by auto
        show ?thesis
        proof (rule step [of ks a' b])
          show "fst ` set a \<union> fst ` set b = insert ks (fst ` set a' \<union> fst ` set b)"
            using a x by simp
          show "\<forall>x\<in>fst ` set a' \<union> fst ` set b. ks < x" using la lb lt b y by auto
          show "mergeEvents ut params src dst a b = ?E a b ks @ mergeEvents ut params src dst a' b"
            using a b x y lt map_of_absent [OF nb] by (simp add: mergeEvents_less keyEvents_def)
          show "\<forall>x. x \<noteq> ks \<longrightarrow> map_of a x = map_of a' x \<and> map_of b x = map_of b x"
            using a x by simp
          show "length a' + length b < length a + length b" using a by simp
          show "sorted_wrt (<) (map fst a')" by (rule sa)
          show "sorted_wrt (<) (map fst b)" by (rule less.prems(2))
        qed
      next
        case gt
        have na: "kd \<notin> fst ` set a" using gt la a x by auto
        show ?thesis
        proof (rule step [of kd a b'])
          show "fst ` set a \<union> fst ` set b = insert kd (fst ` set a \<union> fst ` set b')"
            using b y by simp
          show "\<forall>x\<in>fst ` set a \<union> fst ` set b'. kd < x" using la lb gt a x by auto
          show "mergeEvents ut params src dst a b = ?E a b kd @ mergeEvents ut params src dst a b'"
            using a b x y gt map_of_absent [OF na] by (simp add: mergeEvents_greater keyEvents_def)
          show "\<forall>x. x \<noteq> kd \<longrightarrow> map_of a x = map_of a x \<and> map_of b x = map_of b' x"
            using b y by simp
          show "length a + length b' < length a + length b" using b by simp
          show "sorted_wrt (<) (map fst a)" by (rule less.prems(1))
          show "sorted_wrt (<) (map fst b')" by (rule sb)
        qed
      next
        case eq
        show ?thesis
        proof (rule step [of ks a' b'])
          show "fst ` set a \<union> fst ` set b = insert ks (fst ` set a' \<union> fst ` set b')"
            using a b x y eq by auto
          show "\<forall>x\<in>fst ` set a' \<union> fst ` set b'. ks < x" using la lb eq by auto
          show "mergeEvents ut params src dst a b = ?E a b ks @ mergeEvents ut params src dst a' b'"
            using a b x y eq by (simp add: mergeEvents_same keyEvents_def)
          show "\<forall>x. x \<noteq> ks \<longrightarrow> map_of a x = map_of a' x \<and> map_of b x = map_of b' x"
            using a b x y eq by simp
          show "length a' + length b' < length a + length b" using a b by simp
          show "sorted_wrt (<) (map fst a')" by (rule sa)
          show "sorted_wrt (<) (map fst b')" by (rule sb)
        qed
      qed
    qed
  qed
qed

lemma map_assign_keys: "fst ` set (map_assign k v m) = insert k (fst ` set m)"
proof (induction m)
  case Nil
  show ?case by simp
next
  case (Cons x m)
  then show ?case by (cases x) (simp add: insert_commute)
qed

lemma sorted_map_assign:
  "sorted_wrt (<) (map fst m) \<Longrightarrow> sorted_wrt (<) (map fst (map_assign k v m))"
proof (induction m)
  case Nil
  show ?case by simp
next
  case (Cons x m)
  obtain k' v' where x: "x = (k', v')" by (cases x)
  have "\<forall>y\<in>fst ` set (map_assign k v m). k' < y" if "k' < k"
    using Cons.prems that x by (auto simp: map_assign_keys)
  then show ?case using Cons x by (auto simp: image_iff)
qed

lemma sorted_scanSrc:
  "sorted_wrt (<) (map fst m) \<Longrightarrow> sorted_wrt (<) (map fst (scanSrc ut params m e))"
  by (simp add: scanSrc_def Let_def sorted_map_assign)

lemma sorted_scanDst:
  "sorted_wrt (<) (map fst m) \<Longrightarrow> sorted_wrt (<) (map fst (scanDst ut params m e))"
  by (simp add: scanDst_def Let_def sorted_map_assign)

lemma sorted_foldl_scanSrc:
  "sorted_wrt (<) (map fst m) \<Longrightarrow> sorted_wrt (<) (map fst (foldl (scanSrc ut params) m es))"
  by (induction es arbitrary: m) (simp_all add: sorted_scanSrc)

lemma sorted_foldl_scanDst:
  "sorted_wrt (<) (map fst m) \<Longrightarrow> sorted_wrt (<) (map fst (foldl (scanDst ut params) m es))"
  by (induction es arbitrary: m) (simp_all add: sorted_scanDst)

lemma sorted_readSrcDir:
  "readSrcDir ut params src = Inr srcmap \<Longrightarrow> sorted_wrt (<) (map fst srcmap)"
  using sorted_foldl_scanSrc [of "[]"]
  by (auto simp: readSrcDir_def split: sum.splits)

lemma sorted_readDstDir:
  "readDstDir ut params dst = Inr dstmap \<Longrightarrow> sorted_wrt (<) (map fst dstmap)"
  using sorted_foldl_scanDst [of "[]"]
  by (auto simp: readDstDir_def split: sum.splits if_splits)

lemma mergeEvents_dst_empty:
  "mergeEvents ut params src dst a [] = map (\<lambda>(k, s). SrcOnly s (fst dst)) a"
  by (induction a) (auto simp: mergeEvents_Nil_Nil mergeEvents_Cons_Nil)

lemma mergeResult_dst_empty:
  "mergeResult ut params src dst a [] = Inr (a = [])"
  by (induction a) (auto simp: mergeResult_Nil_Nil mergeResult_Cons_Nil)

lemma scanSrc_scanWith:
  "scanSrc ut params = scanWith (\<lambda>e. ignoreSrcFile (filename (fst e)) params) (entryKey ut params)"
  by (simp add: fun_eq_iff scanSrc_def scanWith_def entryKey_def Let_def)

lemma scanDst_scanWith:
  "scanDst ut params = scanWith (\<lambda>e. ignoreDstFile (filename (fst e)) params) (entryKey ut params)"
  by (simp add: fun_eq_iff scanDst_def scanWith_def entryKey_def Let_def)

lemma map_of_map_assign:
  "sorted_wrt (<) (map fst m) \<Longrightarrow> map_of (map_assign k v m) = (map_of m)(k \<mapsto> v)"
proof (induction m)
  case Nil
  show ?case by simp
next
  case (Cons x m)
  obtain k' v' where x: "x = (k', v')" by (cases x)
  show ?case using Cons x by (auto simp: fun_upd_twist)
qed

lemma sorted_scanWith:
  "sorted_wrt (<) (map fst m) \<Longrightarrow> sorted_wrt (<) (map fst (scanWith ig key m e))"
  by (simp add: scanWith_def sorted_map_assign)

lemma sorted_foldl_scanWith:
  "sorted_wrt (<) (map fst m) \<Longrightarrow> sorted_wrt (<) (map fst (foldl (scanWith ig key) m es))"
  by (induction es arbitrary: m) (simp_all add: sorted_scanWith)

lemma map_of_scanWith:
  "sorted_wrt (<) (map fst m) \<Longrightarrow>
   map_of (scanWith ig key m e) = (if ig e then map_of m else (map_of m)(key e \<mapsto> e))"
  by (simp add: scanWith_def map_of_map_assign)

lemma sorted_map_unique:
  assumes "sorted_wrt (<) (map fst xs)" "sorted_wrt (<) (map fst ys)" "map_of xs = map_of ys"
  shows "xs = (ys :: (string \<times> 'v) list)"
proof -
  have dx: "distinct (map fst xs)" and dy: "distinct (map fst ys)"
    using assms(1,2) strict_sorted_iff by auto
  have sx: "sorted (map fst xs)" and sy: "sorted (map fst ys)"
    using assms(1,2) strict_sorted_iff by auto
  have eq: "set xs = set ys" using assms(3) dx dy by (simp add: map_of_inject_set)
  have "inj_on fst (set xs \<union> set ys)" using dx eq by (simp add: distinct_map)
  then show ?thesis using map_sorted_distinct_set_unique [of fst xs ys] sx sy dx dy eq by blast
qed

lemma foldl_scanWith_overwrite:
  assumes "sorted_wrt (<) (map fst m)" "sorted_wrt (<) (map fst m')"
    and "\<forall>x. x \<noteq> k \<longrightarrow> map_of m x = map_of m' x"
    and "e2 \<in> set es" "key e2 = k" "\<not> ig e2"
  shows "map_of (foldl (scanWith ig key) m es) = map_of (foldl (scanWith ig key) m' es)"
  using assms
proof (induction es arbitrary: m m')
  case Nil
  then show ?case by simp
next
  case (Cons e es)
  let ?n = "scanWith ig key m e" and ?n' = "scanWith ig key m' e"
  have s: "sorted_wrt (<) (map fst ?n)" "sorted_wrt (<) (map fst ?n')"
    using Cons.prems(1,2) by (simp_all add: sorted_scanWith)
  have d: "\<forall>x. x \<noteq> k \<longrightarrow> map_of ?n x = map_of ?n' x"
    using Cons.prems(1,2,3) by (simp add: map_of_scanWith)
  show ?case
  proof (cases "e2 \<in> set es")
    case True
    then show ?thesis using Cons.IH [OF s d True Cons.prems(5,6)] by simp
  next
    case False
    then have e: "e = e2" using Cons.prems(4) by simp
    have "map_of ?n = map_of ?n'"
      using Cons.prems(1,2,3,5,6) e by (auto simp: map_of_scanWith fun_eq_iff)
    then have "?n = ?n'" using s sorted_map_unique by blast
    then show ?thesis by simp
  qed
qed

lemma foldl_scanWith_drop_earlier:
  assumes "e2 \<in> set es2" "key e2 = key e1" "\<not> ig e2"
  shows "foldl (scanWith ig key) [] (es1 @ e1 # es2) = foldl (scanWith ig key) [] (es1 @ es2)"
proof -
  let ?m = "foldl (scanWith ig key) [] es1"
  have sm: "sorted_wrt (<) (map fst ?m)" by (rule sorted_foldl_scanWith) simp
  have sm1: "sorted_wrt (<) (map fst (scanWith ig key ?m e1))" using sm by (rule sorted_scanWith)
  have "\<forall>x. x \<noteq> key e1 \<longrightarrow> map_of (scanWith ig key ?m e1) x = map_of ?m x"
    using sm by (simp add: map_of_scanWith)
  then have "map_of (foldl (scanWith ig key) (scanWith ig key ?m e1) es2)
      = map_of (foldl (scanWith ig key) ?m es2)"
    using foldl_scanWith_overwrite [of "scanWith ig key ?m e1" ?m "key e1" e2 es2 key ig] sm1 sm assms
    by blast
  moreover have "sorted_wrt (<) (map fst (foldl (scanWith ig key) (scanWith ig key ?m e1) es2))"
    "sorted_wrt (<) (map fst (foldl (scanWith ig key) ?m es2))"
    using sm sm1 by (simp_all add: sorted_foldl_scanWith)
  ultimately show ?thesis by (simp add: sorted_map_unique)
qed

lemma foldl_scanWith_last:
  assumes "sorted_wrt (<) (map fst m)"
    and "\<forall>e\<in>set es. ig e \<or> key e \<noteq> k"
  shows "map_of (foldl (scanWith ig key) m es) k = map_of m k"
  using assms
  by (induction es arbitrary: m) (auto simp: map_of_scanWith sorted_scanWith)

lemma foldl_scanWith_key:
  assumes "sorted_wrt (<) (map fst m)"
    and "\<forall>k e. map_of m k = Some e \<longrightarrow> key e = k"
    and "map_of (foldl (scanWith ig key) m es) k = Some e"
  shows "key e = k"
  using assms
proof (induction es arbitrary: m)
  case Nil
  then show ?case by (cases e) auto
next
  case (Cons x es)
  have "\<forall>k e. map_of (scanWith ig key m x) k = Some e \<longrightarrow> key e = k"
    using Cons.prems(1,2) by (auto simp: map_of_scanWith)
  then show ?case
    using Cons.IH [of "scanWith ig key m x"] Cons.prems(1,3) by (simp add: sorted_scanWith)
qed

lemma scan_collision:
  fixes xs ys zs :: "entry list"
  assumes "key e1 = key e2" and "e1 \<noteq> e2" and "\<not> ig e2"
    and "\<forall>e\<in>set zs. ig e \<or> key e \<noteq> key e2"
  defines "m \<equiv> foldl (scanWith ig key) [] (xs @ e1 # ys @ e2 # zs)"
  shows "m = foldl (scanWith ig key) [] (xs @ ys @ e2 # zs)"
    and "map_of m (key e2) = Some e2"
    and "map_of m k \<noteq> Some e1"
proof -
  show "m = foldl (scanWith ig key) [] (xs @ ys @ e2 # zs)"
    unfolding m_def using assms(1,3)
    by (intro foldl_scanWith_drop_earlier [of e2]) auto
  let ?a = "foldl (scanWith ig key) [] (xs @ e1 # ys)"
  have sa: "sorted_wrt (<) (map fst ?a)" by (rule sorted_foldl_scanWith) simp
  have sa2: "sorted_wrt (<) (map fst (scanWith ig key ?a e2))" using sa by (rule sorted_scanWith)
  have "m = foldl (scanWith ig key) (scanWith ig key ?a e2) zs"
    by (simp add: m_def)
  then have "map_of m (key e2) = map_of (scanWith ig key ?a e2) (key e2)"
    using foldl_scanWith_last [OF sa2 assms(4)] by simp
  then show slot: "map_of m (key e2) = Some e2"
    using sa assms(3) by (simp add: map_of_scanWith)
  show "map_of m k \<noteq> Some e1"
  proof
    assume a: "map_of m k = Some e1"
    have "key e1 = k"
      by (rule foldl_scanWith_key [of "[]" key ig "xs @ e1 # ys @ e2 # zs" k e1])
         (use a in \<open>simp_all only: m_def\<close>, simp_all)
    then show False using a slot assms(1,2) by simp
  qed
qed

lemma keyEvents_paths:
  "fst src = fst src' \<Longrightarrow> fst dst = fst dst' \<Longrightarrow>
   keyEvents ut params src dst a b = keyEvents ut params src' dst' a b"
  by (intro ext) (simp add: keyEvents_def split: option.splits)

lemma mergeEvents_paths:
  assumes "sorted_wrt (<) (map fst a)" "sorted_wrt (<) (map fst b)"
    and "fst src = fst src'" "fst dst = fst dst'"
  shows "mergeEvents ut params src dst a b = mergeEvents ut params src' dst' a b"
  using mergeEvents_decompose [OF assms(1,2)] keyEvents_paths [OF assms(3,4)] by simp

lemma mergeResult_paths:
  assumes "sorted_wrt (<) (map fst a)" "sorted_wrt (<) (map fst b)"
    and "fst src = fst src'" "fst dst = fst dst'"
  shows "mergeResult ut params src dst a b = mergeResult ut params src' dst' a b"
  using mergeEvents_paths [OF assms] by (simp add: verdict_all(2))

lemma processDir_same_maps:
  assumes "readSrcDir ut params src = readSrcDir ut params src'"
    and "readDstDir ut params dst = readDstDir ut params dst'"
    and "fst src = fst src'" "fst dst = fst dst'"
  shows "tl (processEvents ut params src dst) = tl (processEvents ut params src' dst')"
    and "processResult ut params src dst = processResult ut params src' dst'"
proof -
  have "mergeEvents ut params src dst a b = mergeEvents ut params src' dst' a b
      \<and> mergeResult ut params src dst a b = mergeResult ut params src' dst' a b"
    if "readSrcDir ut params src' = Inr a" "readDstDir ut params dst' = Inr b" for a b
    using mergeEvents_paths [OF sorted_readSrcDir [OF that(1)] sorted_readDstDir [OF that(2)] assms(3,4)]
      mergeResult_paths [OF sorted_readSrcDir [OF that(1)] sorted_readDstDir [OF that(2)] assms(3,4)]
    by simp
  then show "tl (processEvents ut params src dst) = tl (processEvents ut params src' dst')"
    and "processResult ut params src dst = processResult ut params src' dst'"
    using assms(1,2) by (auto simp: processEvents_unfold processResult_unfold split: sum.splits)
qed

lemma readSrcDir_Dir:
  "readSrcDir ut params (p, Dir m cs) =
     Inr (foldl (scanWith (\<lambda>e. ignoreSrcFile (filename (fst e)) params) (entryKey ut params)) []
       (map (\<lambda>(name, n). (p @ [name], n)) cs))"
  by (simp add: readSrcDir_def directory_iterator_def scanSrc_scanWith)

lemma readDstDir_Dir:
  "readDstDir ut params (p, Dir m cs) =
     Inr (foldl (scanWith (\<lambda>e. ignoreDstFile (filename (fst e)) params) (entryKey ut params)) []
       (map (\<lambda>(name, n). (p @ [name], n)) cs))"
  by (simp add: readDstDir_def fsExists_def directory_iterator_def scanDst_scanWith)

lemma filename_child: "filename (p @ [n]) = n"
  by (simp add: filename_def)

section \<open>Claims about the comparator\<close>

lemmas eval_defs = plainUtils_def plainParams_def is_directory_def fsExists_def
  processDir.simps compareEntries.simps readSrcDir_def readDstDir_def directory_iterator_def
  scanSrc_def scanDst_def ignoreSrcFile_def ignoreDstFile_def hasPrefix_def filename_def
  getFileType_def sameRegular_def sameSymlink_def sameRDev_def file_size_def readFile_def
  read_symlink_def getRDev_def cb_defs Let_def

text \<open>
  Claim C1. For a source directory and a destination that is a directory or is missing,
  \<open>processDir\<close> returns, and the flag it returns is true if and only if none of the events
  it appended to the log, at any depth, is a SrcOnly, DstOnly, Mismatch or TypeMismatch
  (\<open>isDifference\<close>): Match, IgnoredDir, IgnoredFile and the two progress events do not
  affect it.
\<close>

theorem processDir_verdict:
  assumes "is_directory src" and "\<not> fsExists dst \<or> is_directory dst"
  shows "processDir ut params src dst log =
     (log @ processEvents ut params src dst,
      Inr (\<forall>e\<in>set (processEvents ut params src dst). \<not> isDifference e))"
  using assms verdict_all(1) [of src dst ut params] by (simp add: processDir_frame)

theorem processDir_verdict_witness:
  "processDir plainUtils plainParams
       ([''s''], Dir 0 [(''b'', Regular 0 ''x''), (''a'', Dir 0 [(''c'', Fifo 0)])])
       ([''d''], Dir 0 [(''a'', Dir 0 [(''c'', Fifo 0)]), (''b'', Regular 0 ''x'')]) []
     = ([ProgressDirs ([''s''], Dir 0 [(''b'', Regular 0 ''x''), (''a'', Dir 0 [(''c'', Fifo 0)])])
            ([''d''], Dir 0 [(''a'', Dir 0 [(''c'', Fifo 0)]), (''b'', Regular 0 ''x'')]),
         ProgressDirs ([''s'', ''a''], Dir 0 [(''c'', Fifo 0)]) ([''d'', ''a''], Dir 0 [(''c'', Fifo 0)]),
         ProgressFiles ([''s'', ''a'', ''c''], Fifo 0) ([''d'', ''a'', ''c''], Fifo 0),
         Match ([''s'', ''a'', ''c''], Fifo 0) ([''d'', ''a'', ''c''], Fifo 0),
         ProgressFiles ([''s'', ''b''], Regular 0 ''x'') ([''d'', ''b''], Regular 0 ''x''),
         Match ([''s'', ''b''], Regular 0 ''x'') ([''d'', ''b''], Regular 0 ''x'')], Inr True)
   \<and> processDir plainUtils plainParams
       ([''s''], Dir 0 [(''a'', Regular 0 ''x'')]) ([''d''], Dir 0 [(''a'', Regular 0 ''y'')]) []
     = ([ProgressDirs ([''s''], Dir 0 [(''a'', Regular 0 ''x'')]) ([''d''], Dir 0 [(''a'', Regular 0 ''y'')]),
         ProgressFiles ([''s'', ''a''], Regular 0 ''x'') ([''d'', ''a''], Regular 0 ''y''),
         Mismatch ([''s'', ''a''], Regular 0 ''x'') ([''d'', ''a''], Regular 0 ''y'')], Inr False)"
  using processDir_verdict [of "([''s''], Dir 0 [(''b'', Regular 0 ''x''), (''a'', Dir 0 [(''c'', Fifo 0)])])"
      "([''d''], Dir 0 [(''a'', Dir 0 [(''c'', Fifo 0)]), (''b'', Regular 0 ''x'')])"
      plainUtils plainParams "[]"]
    processDir_verdict [of "([''s''], Dir 0 [(''a'', Regular 0 ''x'')])"
      "([''d''], Dir 0 [(''a'', Regular 0 ''y'')])" plainUtils plainParams "[]"]
  by (simp add: processEvents_def eval_defs)

text \<open>
  Claim C2. For the two keyed maps that \<open>processDir\<close> builds from the two sides, the log
  of the call is the progress event of the directory followed by one group of events per
  key, the keys of the two maps taken together in strictly ascending order
  (\<open>sorted_list_of_set\<close>): a key of the source map alone gives exactly the one SrcOnly
  event of its entry, a key of the destination map alone exactly the one DstOnly event of
  its entry, and a key of both the events of comparing the two entries (\<open>keyEvents\<close>).
\<close>

theorem processDir_events_by_key:
  assumes "readSrcDir ut params src = Inr srcmap" and "readDstDir ut params dst = Inr dstmap"
  shows "fst (processDir ut params src dst log) =
     log @ ProgressDirs src dst #
       concat (map (keyEvents ut params src dst srcmap dstmap)
         (sorted_list_of_set (fst ` set srcmap \<union> fst ` set dstmap)))"
  using assms mergeEvents_decompose [OF sorted_readSrcDir [OF assms(1)] sorted_readDstDir [OF assms(2)]]
  by (simp add: processDir_frame processEvents_unfold)

theorem processDir_events_by_key_witness:
  "fst (processDir plainUtils plainParams
       ([''s''], Dir 0 [(''c'', Fifo 1), (''b'', Regular 0 ''x''), (''a'', Socket 2)])
       ([''d''], Dir 0 [(''d'', Fifo 3), (''b'', Regular 0 ''x'')]) [])
     = [ProgressDirs ([''s''], Dir 0 [(''c'', Fifo 1), (''b'', Regular 0 ''x''), (''a'', Socket 2)])
          ([''d''], Dir 0 [(''d'', Fifo 3), (''b'', Regular 0 ''x'')]),
        SrcOnly ([''s'', ''a''], Socket 2) [''d''],
        ProgressFiles ([''s'', ''b''], Regular 0 ''x'') ([''d'', ''b''], Regular 0 ''x''),
        Match ([''s'', ''b''], Regular 0 ''x'') ([''d'', ''b''], Regular 0 ''x''),
        SrcOnly ([''s'', ''c''], Fifo 1) [''d''],
        DstOnly [''s''] ([''d'', ''d''], Fifo 3)]"
  using processDir_events_by_key [of plainUtils plainParams
      "([''s''], Dir 0 [(''c'', Fifo 1), (''b'', Regular 0 ''x''), (''a'', Socket 2)])"
      "[(''a'', ([''s'', ''a''], Socket 2)), (''b'', ([''s'', ''b''], Regular 0 ''x'')), (''c'', ([''s'', ''c''], Fifo 1))]"
      "([''d''], Dir 0 [(''d'', Fifo 3), (''b'', Regular 0 ''x'')])"
      "[(''b'', ([''d'', ''b''], Regular 0 ''x'')), (''d'', ([''d'', ''d''], Fifo 3))]" "[]"]
  by (simp add: eval_defs)

text \<open>
  Claim C8. When the destination of a comparison does not exist and the source is a
  directory, \<open>processDir\<close> raises no error: the destination map is empty, the log is the
  progress event followed by one SrcOnly event for every entry of the source map, in key
  order, and the flag returned says whether the source map was empty.
\<close>

theorem processDir_missing_destination:
  assumes "is_directory src" and "\<not> fsExists dst"
  shows "readDstDir ut params dst = Inr [] \<and>
     (\<exists>srcmap. readSrcDir ut params src = Inr srcmap \<and>
        processDir ut params src dst log =
          (log @ ProgressDirs src dst # map (\<lambda>(k, s). SrcOnly s (fst dst)) srcmap,
           Inr (srcmap = [])))"
proof -
  obtain srcmap where S: "readSrcDir ut params src = Inr srcmap"
    using assms(1) is_directory_readSrcDir by blast
  have D: "readDstDir ut params dst = Inr []"
    using assms(2) by (simp add: readDstDir_def)
  show ?thesis
    by (simp add: S D processDir_frame processEvents_unfold processResult_unfold
        mergeEvents_dst_empty mergeResult_dst_empty)
qed

theorem processDir_missing_destination_witness:
  "processDir plainUtils plainParams
     ([''s''], Dir 0 [(''b'', Regular 0 ''x''), (''a'', Dir 1 [(''c'', Fifo 2)])]) ([''d''], NonExisting) []
   = ([ProgressDirs ([''s''], Dir 0 [(''b'', Regular 0 ''x''), (''a'', Dir 1 [(''c'', Fifo 2)])]) ([''d''], NonExisting),
       SrcOnly ([''s'', ''a''], Dir 1 [(''c'', Fifo 2)]) [''d''],
       SrcOnly ([''s'', ''b''], Regular 0 ''x'') [''d'']], Inr False)"
  using processDir_missing_destination [of
      "([''s''], Dir 0 [(''b'', Regular 0 ''x''), (''a'', Dir 1 [(''c'', Fifo 2)])])" "([''d''], NonExisting)"
      plainUtils plainParams "[]"]
  by (simp add: eval_defs)

text \<open>
  Claim C3. When the two cursors of the merge loop stand on entries of the same name that
  are both regular files, the loop reports the pair as compared, emits Match if the two
  sizes are equal and content comparison is disabled or the bytes of the two files are
  equal, emits Mismatch and clears the flag otherwise, and goes on with the next pair.
\<close>

theorem mergeLoop_regular_files:
  assumes "getFileType s (followSymlinks params) = FT_REGULAR"
    and "getFileType d (followSymlinks params) = FT_REGULAR"
  shows "\<exists>sbytes dbytes.
     readFile s = Inr sbytes \<and> file_size s = Inr (length sbytes) \<and>
     readFile d = Inr dbytes \<and> file_size d = Inr (length dbytes) \<and>
     mergeLoop ut params src dst ((k, s) # itsrc) ((k, d) # itdst) noDifferenceFound log =
       (if length sbytes = length dbytes \<and> (ignoreContent params \<or> sbytes = dbytes)
        then mergeLoop ut params src dst itsrc itdst noDifferenceFound
               (log @ [ProgressFiles s d, Match s d])
        else mergeLoop ut params src dst itsrc itdst False
               (log @ [ProgressFiles s d, Mismatch s d]))"
proof -
  obtain sbytes where s: "readFile s = Inr sbytes" "file_size s = Inr (length sbytes)"
    using file_size_regular [OF assms(1)] by blast
  obtain dbytes where d: "readFile d = Inr dbytes" "file_size d = Inr (length dbytes)"
    using file_size_regular [OF assms(2)] by blast
  show ?thesis
    using s d by (auto simp add: compareEntries_regular [OF assms])
qed

theorem mergeLoop_regular_files_witness:
  "mergeLoop plainUtils (plainParams\<lparr>ignoreContent := True\<rparr>) ([''s''], NonExisting) ([''d''], NonExisting)
     [(''a'', ([''s'', ''a''], Regular 0 ''xy''))] [(''a'', ([''d'', ''a''], Regular 5 ''zz''))] True []
    = ([ProgressFiles ([''s'', ''a''], Regular 0 ''xy'') ([''d'', ''a''], Regular 5 ''zz''),
        Match ([''s'', ''a''], Regular 0 ''xy'') ([''d'', ''a''], Regular 5 ''zz'')], Inr True)
   \<and> mergeLoop plainUtils plainParams ([''s''], NonExisting) ([''d''], NonExisting)
     [(''a'', ([''s'', ''a''], Regular 0 ''xy''))] [(''a'', ([''d'', ''a''], Regular 5 ''zz''))] True []
    = ([ProgressFiles ([''s'', ''a''], Regular 0 ''xy'') ([''d'', ''a''], Regular 5 ''zz''),
        Mismatch ([''s'', ''a''], Regular 0 ''xy'') ([''d'', ''a''], Regular 5 ''zz'')], Inr False)
   \<and> mergeLoop plainUtils (plainParams\<lparr>ignoreContent := True\<rparr>) ([''s''], NonExisting) ([''d''], NonExisting)
     [(''a'', ([''s'', ''a''], Regular 0 ''xy''))] [(''a'', ([''d'', ''a''], Regular 5 ''xyz''))] True []
    = ([ProgressFiles ([''s'', ''a''], Regular 0 ''xy'') ([''d'', ''a''], Regular 5 ''xyz''),
        Mismatch ([''s'', ''a''], Regular 0 ''xy'') ([''d'', ''a''], Regular 5 ''xyz'')], Inr False)"
  using mergeLoop_regular_files [of "([''s'', ''a''], Regular 0 ''xy'')" "plainParams\<lparr>ignoreContent := True\<rparr>"
       "([''d'', ''a''], Regular 5 ''zz'')" plainUtils "([''s''], NonExisting)" "([''d''], NonExisting)" "''a''" "[]" "[]" True "[]"]
     mergeLoop_regular_files [of "([''s'', ''a''], Regular 0 ''xy'')" "plainParams"
       "([''d'', ''a''], Regular 5 ''zz'')" plainUtils "([''s''], NonExisting)" "([''d''], NonExisting)" "''a''" "[]" "[]" True "[]"]
     mergeLoop_regular_files [of "([''s'', ''a''], Regular 0 ''xy'')" "plainParams\<lparr>ignoreContent := True\<rparr>"
       "([''d'', ''a''], Regular 5 ''xyz'')" plainUtils "([''s''], NonExisting)" "([''d''], NonExisting)" "''a''" "[]" "[]" True "[]"]
  by (simp add: eval_defs)

text \<open>
  Claim C9. With filename normalization enabled, let a directory hold two entries of
  distinct raw names \<open>n1\<close> and \<open>n2\<close> that normalize to the same key, \<open>n1\<close> scanned first,
  \<open>n2\<close> not filtered as a fork and no entry scanned after \<open>n2\<close> with that key. Then the
  map of the scan is the map of the same directory without the \<open>n1\<close> entry, its slot for
  the key holds the \<open>n2\<close> entry, no slot holds the \<open>n1\<close> entry, and a comparison with any
  other directory appends, after the progress event of the directory itself, the same
  events and returns the same flag as if the \<open>n1\<close> entry were not there. This holds for
  the source scan and for the destination scan.
\<close>

theorem scan_collision_later_wins:
  fixes xs ys zs :: "(string \<times> node) list" and m :: int and c1 c2 :: node and n1 n2 :: string
  assumes "normalizeFilenames params"
    and "n1 \<noteq> n2" and "toNfd ut n1 = toNfd ut n2"
    and "\<forall>(n, c)\<in>set zs. toNfd ut n \<noteq> toNfd ut n2"
  defines "both \<equiv> Dir m (xs @ (n1, c1) # ys @ (n2, c2) # zs)"
    and "later \<equiv> Dir m (xs @ ys @ (n2, c2) # zs)"
  shows "(\<not> ignoreSrcFile n2 params \<longrightarrow>
       (\<exists>srcmap. readSrcDir ut params (p, both) = Inr srcmap \<and>
          readSrcDir ut params (p, later) = Inr srcmap \<and>
          map_of srcmap (toNfd ut n2) = Some (p @ [n2], c2) \<and>
          (\<forall>k. map_of srcmap k \<noteq> Some (p @ [n1], c1)) \<and>
          (\<forall>dst. tl (processEvents ut params (p, both) dst) = tl (processEvents ut params (p, later) dst) \<and>
             processResult ut params (p, both) dst = processResult ut params (p, later) dst)))
   \<and> (\<not> ignoreDstFile n2 params \<longrightarrow>
       (\<exists>dstmap. readDstDir ut params (p, both) = Inr dstmap \<and>
          readDstDir ut params (p, later) = Inr dstmap \<and>
          map_of dstmap (toNfd ut n2) = Some (p @ [n2], c2) \<and>
          (\<forall>k. map_of dstmap k \<noteq> Some (p @ [n1], c1)) \<and>
          (\<forall>src. tl (processEvents ut params src (p, both)) = tl (processEvents ut params src (p, later)) \<and>
             processResult ut params src (p, both) = processResult ut params src (p, later))))"
proof -
  let ?ch = "map (\<lambda>(name, n). (p @ [name], n))"
  let ?key = "entryKey ut params"
  let ?e1 = "(p @ [n1], c1)" and ?e2 = "(p @ [n2], c2)"
  have k: "?key ?e1 = ?key ?e2" "?key ?e2 = toNfd ut n2"
    using assms(1,3) by (simp_all add: entryKey_def filename_child)
  have ne: "?e1 \<noteq> ?e2" using assms(2) by simp
  have last: "\<forall>e\<in>set (?ch zs). ig e \<or> ?key e \<noteq> ?key ?e2" for ig
    using assms(1,4) by (auto simp: entryKey_def filename_child)
  have lists: "?ch (xs @ (n1, c1) # ys @ (n2, c2) # zs) = ?ch xs @ ?e1 # ?ch ys @ ?e2 # ?ch zs"
    "?ch (xs @ ys @ (n2, c2) # zs) = ?ch xs @ ?ch ys @ ?e2 # ?ch zs"
    by simp_all
  have main: "foldl (scanWith ig ?key) [] (?ch xs @ ?e1 # ?ch ys @ ?e2 # ?ch zs)
        = foldl (scanWith ig ?key) [] (?ch xs @ ?ch ys @ ?e2 # ?ch zs)
      \<and> map_of (foldl (scanWith ig ?key) [] (?ch xs @ ?e1 # ?ch ys @ ?e2 # ?ch zs)) (toNfd ut n2) = Some ?e2
      \<and> (\<forall>k. map_of (foldl (scanWith ig ?key) [] (?ch xs @ ?e1 # ?ch ys @ ?e2 # ?ch zs)) k \<noteq> Some ?e1)"
    if "\<not> ig ?e2" for ig
    using scan_collision [of ?key ?e1 ?e2 ig "?ch zs" "?ch xs" "?ch ys", OF k(1) ne that last] k(2)
    by simp
  have src: "\<not> ignoreSrcFile n2 params \<longrightarrow>
       (\<exists>srcmap. readSrcDir ut params (p, both) = Inr srcmap \<and>
          readSrcDir ut params (p, later) = Inr srcmap \<and>
          map_of srcmap (toNfd ut n2) = Some (p @ [n2], c2) \<and>
          (\<forall>k. map_of srcmap k \<noteq> Some (p @ [n1], c1)) \<and>
          (\<forall>dst. tl (processEvents ut params (p, both) dst) = tl (processEvents ut params (p, later) dst) \<and>
             processResult ut params (p, both) dst = processResult ut params (p, later) dst))"
  proof
    assume "\<not> ignoreSrcFile n2 params"
    then have m: "\<not> (\<lambda>e. ignoreSrcFile (filename (fst e)) params) ?e2"
      by (simp add: filename_child)
    let ?ig = "\<lambda>e. ignoreSrcFile (filename (fst e)) params"
    let ?mb = "foldl (scanWith ?ig ?key) [] (?ch xs @ ?e1 # ?ch ys @ ?e2 # ?ch zs)"
    let ?ml = "foldl (scanWith ?ig ?key) [] (?ch xs @ ?ch ys @ ?e2 # ?ch zs)"
    have M: "?mb = ?ml" "map_of ?mb (toNfd ut n2) = Some ?e2" "\<forall>k. map_of ?mb k \<noteq> Some ?e1"
      using main [of ?ig, OF m] by blast+
    have rb: "readSrcDir ut params (p, both) = Inr ?mb"
      by (simp only: both_def readSrcDir_Dir lists)
    have rl: "readSrcDir ut params (p, later) = Inr ?mb"
      by (simp only: later_def readSrcDir_Dir lists M(1))
    have eq: "readSrcDir ut params (p, both) = readSrcDir ut params (p, later)"
      by (simp only: rb rl)
    have ev: "\<forall>dst. tl (processEvents ut params (p, both) dst) = tl (processEvents ut params (p, later) dst) \<and>
             processResult ut params (p, both) dst = processResult ut params (p, later) dst"
      using processDir_same_maps [OF eq refl] by simp
    show "\<exists>srcmap. readSrcDir ut params (p, both) = Inr srcmap \<and>
          readSrcDir ut params (p, later) = Inr srcmap \<and>
          map_of srcmap (toNfd ut n2) = Some (p @ [n2], c2) \<and>
          (\<forall>k. map_of srcmap k \<noteq> Some (p @ [n1], c1)) \<and>
          (\<forall>dst. tl (processEvents ut params (p, both) dst) = tl (processEvents ut params (p, later) dst) \<and>
             processResult ut params (p, both) dst = processResult ut params (p, later) dst)"
      using rb rl M(2,3) ev by (intro exI [of _ ?mb] conjI)
  qed
  have dst: "\<not> ignoreDstFile n2 params \<longrightarrow>
       (\<exists>dstmap. readDstDir ut params (p, both) = Inr dstmap \<and>
          readDstDir ut params (p, later) = Inr dstmap \<and>
          map_of dstmap (toNfd ut n2) = Some (p @ [n2], c2) \<and>
          (\<forall>k. map_of dstmap k \<noteq> Some (p @ [n1], c1)) \<and>
          (\<forall>src. tl (processEvents ut params src (p, both)) = tl (processEvents ut params src (p, later)) \<and>
             processResult ut params src (p, both) = processResult ut params src (p, later)))"
  proof
    assume "\<not> ignoreDstFile n2 params"
    then have m: "\<not> (\<lambda>e. ignoreDstFile (filename (fst e)) params) ?e2"
      by (simp add: filename_child)
    let ?ig = "\<lambda>e. ignoreDstFile (filename (fst e)) params"
    let ?mb = "foldl (scanWith ?ig ?key) [] (?ch xs @ ?e1 # ?ch ys @ ?e2 # ?ch zs)"
    let ?ml = "foldl (scanWith ?ig ?key) [] (?ch xs @ ?ch ys @ ?e2 # ?ch zs)"
    have M: "?mb = ?ml" "map_of ?mb (toNfd ut n2) = Some ?e2" "\<forall>k. map_of ?mb k \<noteq> Some ?e1"
      using main [of ?ig, OF m] by blast+
    have rb: "readDstDir ut params (p, both) = Inr ?mb"
      by (simp only: both_def readDstDir_Dir lists)
    have rl: "readDstDir ut params (p, later) = Inr ?mb"
      by (simp only: later_def readDstDir_Dir lists M(1))
    have eq: "readDstDir ut params (p, both) = readDstDir ut params (p, later)"
      by (simp only: rb rl)
    have ev: "\<forall>src. tl (processEvents ut params src (p, both)) = tl (processEvents ut params src (p, later)) \<and>
             processResult ut params src (p, both) = processResult ut params src (p, later)"
      using processDir_same_maps [OF refl eq] by simp
    show "\<exists>dstmap. readDstDir ut params (p, both) = Inr dstmap \<and>
          readDstDir ut params (p, later) = Inr dstmap \<and>
          map_of dstmap (toNfd ut n2) = Some (p @ [n2], c2) \<and>
          (\<forall>k. map_of dstmap k \<noteq> Some (p @ [n1], c1)) \<and>
          (\<forall>src. tl (processEvents ut params src (p, both)) = tl (processEvents ut params src (p, later)) \<and>
             processResult ut params src (p, both) = processResult ut params src (p, later))"
      using rb rl M(2,3) ev by (intro exI [of _ ?mb] conjI)
  qed
  show ?thesis using src dst by (rule conjI)
qed

theorem scan_collision_later_wins_witness:
  "processDir normUtils normParams
      ([''s''], Dir 0 [(''e'', Regular 0 ''old''), (''E'', Regular 1 ''new'')]) ([''d''], Dir 0 []) []
    = ([ProgressDirs ([''s''], Dir 0 [(''e'', Regular 0 ''old''), (''E'', Regular 1 ''new'')]) ([''d''], Dir 0 []),
        SrcOnly ([''s'', ''E''], Regular 1 ''new'') [''d'']], Inr False)
   \<and> processDir normUtils normParams
      ([''s''], Dir 0 [(''E'', Regular 1 ''new'')]) ([''d''], Dir 0 []) []
    = ([ProgressDirs ([''s''], Dir 0 [(''E'', Regular 1 ''new'')]) ([''d''], Dir 0 []),
        SrcOnly ([''s'', ''E''], Regular 1 ''new'') [''d'']], Inr False)
   \<and> processDir normUtils normParams
      ([''s''], Dir 0 []) ([''d''], Dir 0 [(''e'', Regular 0 ''old''), (''E'', Regular 1 ''new'')]) []
    = ([ProgressDirs ([''s''], Dir 0 []) ([''d''], Dir 0 [(''e'', Regular 0 ''old''), (''E'', Regular 1 ''new'')]),
        DstOnly [''s''] ([''d'', ''E''], Regular 1 ''new'')], Inr False)"
  using scan_collision_later_wins [where params = normParams and ut = normUtils and ?n1.0 = "''e''"
      and ?n2.0 = "''E''" and xs = "[]" and ys = "[]" and zs = "[]" and p = "[''s'']" and m = 0
      and ?c1.0 = "Regular 0 ''old''" and ?c2.0 = "Regular 1 ''new''"]
  by (simp add: normUtils_def normParams_def toyNfd_def eval_defs)

section \<open>Properties of the dispatcher\<close>

lemma sameTree_refl [simp]: "sameTree w w"
  by (simp add: sameTree_def)

lemma sameTree_trans: "sameTree w w1 \<Longrightarrow> sameTree w1 w2 \<Longrightarrow> sameTree w w2"
  by (simp add: sameTree_def)

lemma sameTree_print [simp]: "sameTree w (print line w)"
  by (simp add: sameTree_def print_def)

lemma sameTree_print_iff [simp]: "sameTree w (print line w') = sameTree w w'"
  by (simp add: sameTree_def print_def)

lemma entryAt_sameTree: "sameTree w w' \<Longrightarrow> entryAt w' p = entryAt w p"
  by (simp add: sameTree_def entryAt_def)

lemma removeRecursive_dummy:
  "sameTree w (fst (removeRecursive ut dst v pfx follow True w))"
  "sameTree w (fst (removeEach ut es v pfx follow True w))"
proof (induct ut dst v pfx follow "True" w and ut es v pfx follow "True" w
    rule: removeRecursive_removeEach.induct)
  case (1 ut dst v pfx follow w)
  show ?case
  proof (cases "fsIsDirectory dst False")
    case False
    then show ?thesis by (simp add: removeRecursive.simps)
  next
    case True
    show ?thesis
    proof (cases "directory_iterator dst")
      case (Inl e)
      then show ?thesis using True by (simp add: removeRecursive.simps)
    next
      case (Inr entries)
      obtain w1 r where x: "removeEach ut entries v pfx follow True w = (w1, r)"
        by (cases "removeEach ut entries v pfx follow True w")
      have "sameTree w w1" using 1 [OF True Inr] x by simp
      then show ?thesis using True Inr x
        by (cases r) (simp_all add: removeRecursive.simps)
    qed
  qed
next
  case (2 ut v pfx follow w)
  show ?case by simp
next
  case (3 ut dst' rest v pfx follow w)
  obtain w1 r where x: "removeRecursive ut dst' v pfx follow True w = (w1, r)"
    by (cases "removeRecursive ut dst' v pfx follow True w")
  have a: "sameTree w w1" using 3(1) x by simp
  show ?case
  proof (cases r)
    case None
    have "sameTree w1 (fst (removeEach ut rest v pfx follow True w1))"
      using 3(2) [OF x [symmetric] None] .
    then show ?thesis using a x None by (simp add: sameTree_trans)
  next
    case (Some e)
    then show ?thesis using a x by simp
  qed
qed

lemma sameTree_andThen:
  assumes "sameTree w (fst r)" and "\<And>w1. sameTree w1 (fst (f w1))"
  shows "sameTree w (fst (andThen r f))"
proof (cases r)
  case (Pair w1 e)
  show ?thesis
  proof (cases e)
    case None
    then show ?thesis using assms(1) assms(2) [of w1] Pair
      by (simp add: andThen_def sameTree_trans)
  next
    case (Some a)
    then show ?thesis using assms(1) Pair by (simp add: andThen_def)
  qed
qed

lemma mkDirs_dummy: "sameTree w (fst (mkDirs dir v pfx True w))"
  by (simp add: mkDirs_def)

lemma printDirectoryEntry_sameTree:
  "sameTree w (fst (printDirectoryEntry ut entry pre suf params recursive side w))"
  "sameTree w (fst (printEach ut es pre suf params recursive side w))"
proof (induct ut entry pre suf params recursive side w and ut es pre suf params recursive side w
    rule: printDirectoryEntry_printEach.induct)
  case (1 ut entry pre suf params recursive side w)
  let ?ig = "if side then ignoreSrcFile (filename (fst entry)) params
          else ignoreDstFile (filename (fst entry)) params"
  let ?w1 = "print (pre @ getFileTypeStr ut entry (followSymlinks params) @ '' ''
                        @ showPath (fst entry) @ suf) w"
  show ?case
  proof (cases "?ig \<or> \<not> recursive \<or> \<not> is_directory entry")
    case True
    then show ?thesis by (auto simp: printDirectoryEntry.simps Let_def)
  next
    case False
    show ?thesis
    proof (cases "directory_iterator entry")
      case (Inl e)
      then show ?thesis using False by (simp add: printDirectoryEntry.simps Let_def)
    next
      case (Inr entries)
      have "sameTree ?w1 (fst (printEach ut entries pre suf params recursive side ?w1))"
        using 1 [OF _ refl _ Inr] False by simp
      then have "sameTree w (fst (printEach ut entries pre suf params recursive side ?w1))"
        using sameTree_trans [OF sameTree_print] by blast
      then show ?thesis using False Inr by (simp add: printDirectoryEntry.simps Let_def)
    qed
  qed
next
  case (2 ut pre suf params recursive side w)
  show ?case by simp
next
  case (3 ut entry' rest pre suf params recursive side w)
  obtain w1 r where x: "printDirectoryEntry ut entry' pre suf params recursive side w = (w1, r)"
    by (cases "printDirectoryEntry ut entry' pre suf params recursive side w")
  have a: "sameTree w w1" using 3(1) x by simp
  show ?case
  proof (cases r)
    case None
    have "sameTree w1 (fst (printEach ut rest pre suf params recursive side w1))"
      using 3(2) [OF x [symmetric] None] .
    then show ?thesis using a x None by (simp add: sameTree_trans)
  next
    case (Some e)
    then show ?thesis using a x by simp
  qed
qed

lemma copyRecursive_dummy:
  "sameTree w (fst (copyRecursive ut src dstpath options v pfx params True w))"
  "sameTree w (fst (copyEach ut es dstpath options v pfx params True w))"
proof (induct ut src dstpath options v pfx params "True" w and ut es dstpath options v pfx params "True" w
    rule: copyRecursive_copyEach.induct)
  case (1 ut src dstpath options v pfx params w)
  let ?dst = "dstpath @ [filename (fst src)]"
  let ?rm = "if overwrite_existing options \<and> fsExists (entryAt w ?dst)
                   \<and> (\<not> fsIsRegular src (followSymlinks params)
                        \<or> \<not> fsIsRegular (entryAt w ?dst) False) then
                removeRecursive ut (entryAt w ?dst) v (pfx @ '': Deleting'')
                  (followSymlinks params) True w
              else (w, None)"
  show ?case
  proof (cases "ignoreSrcFile (filename (fst src)) params")
    case True
    then show ?thesis by (simp add: copyRecursive.simps)
  next
    case ni: False
    obtain w1 r where rm: "?rm = (w1, r)" by (cases ?rm)
    have a: "sameTree w w1"
      using rm removeRecursive_dummy(1) [of w ut "entryAt w ?dst" v "pfx @ '': Deleting''" "followSymlinks params"]
      by (auto split: if_splits)
    show ?thesis
    proof (cases r)
      case (Some e)
      then show ?thesis using ni rm a by (simp add: copyRecursive.simps Let_def)
    next
      case None
      show ?thesis
      proof (cases "is_directory src")
        case False
        then show ?thesis using ni rm a None by (simp add: copyRecursive.simps Let_def)
      next
        case True
        obtain w2 r2 where mk: "mkDirs ?dst v (pfx @ '': Creating dir'') True w1 = (w2, r2)"
          by (cases "mkDirs ?dst v (pfx @ '': Creating dir'') True w1")
        have b: "sameTree w w2"
          using mkDirs_dummy [of w1 ?dst v "pfx @ '': Creating dir''"] mk a
          by (simp add: sameTree_trans)
        have r2: "r2 = None" using mk by (simp add: mkDirs_def)
        show ?thesis
        proof (cases "directory_iterator src")
          case (Inl e)
          then show ?thesis using ni rm None True mk r2 b by (simp add: copyRecursive.simps Let_def)
        next
          case (Inr entries)
          have "sameTree w2 (fst (copyEach ut entries ?dst options v pfx params True w2))"
            using 1 [OF ni refl rm [symmetric] None True mk [symmetric] r2 Inr] .
          then have "sameTree w (fst (copyEach ut entries ?dst options v pfx params True w2))"
            using b sameTree_trans by blast
          then show ?thesis using ni rm None True mk r2 Inr
            by (simp add: copyRecursive.simps Let_def)
        qed
      qed
    qed
  qed
next
  case (2 ut dstpath options v pfx params w)
  show ?case by simp
next
  case (3 ut src' rest dstpath options v pfx params w)
  obtain w1 r where x: "copyRecursive ut src' dstpath options v pfx params True w = (w1, r)"
    by (cases "copyRecursive ut src' dstpath options v pfx params True w")
  have a: "sameTree w w1" using 3(1) x by simp
  show ?case
  proof (cases r)
    case None
    have "sameTree w1 (fst (copyEach ut rest dstpath options v pfx params True w1))"
      using 3(2) [OF x [symmetric] None] .
    then show ?thesis using a x None by (simp add: sameTree_trans)
  next
    case (Some e)
    then show ?thesis using a x by simp
  qed
qed

lemma params_srcOnly_dummy:
  "dummyMode cfg \<Longrightarrow> sameTree w (fst (params_srcOnly cfg ut src dstpath params w))"
  unfolding params_srcOnly_def
  by (intro sameTree_andThen)
     (auto intro!: sameTree_andThen printDirectoryEntry_sameTree mkDirs_dummy copyRecursive_dummy)

lemma params_dstOnly_dummy:
  "dummyMode cfg \<Longrightarrow> sameTree w (fst (params_dstOnly cfg ut srcpath dst params w))"
  unfolding params_dstOnly_def
  by (intro sameTree_andThen)
     (auto intro!: sameTree_andThen printDirectoryEntry_sameTree mkDirs_dummy copyRecursive_dummy
        removeRecursive_dummy)

lemma params_match_dummy:
  "dummyMode cfg \<Longrightarrow> sameTree w (fst (params_match cfg ut src dst params w))"
  by (simp add: params_match_def Let_def split: sum.splits)

lemma params_mismatch_dummy:
  "dummyMode cfg \<Longrightarrow> sameTree w (fst (params_mismatch cfg ut src dst params w))"
  unfolding params_mismatch_def
  by (intro sameTree_andThen) (auto intro!: copyRecursive_dummy split: sum.splits)

lemma copyRecursive_dummy_from:
  "sameTree w w1 \<Longrightarrow> sameTree w (fst (copyRecursive ut src dstpath options v pfx params True w1))"
  using copyRecursive_dummy(1) sameTree_trans by blast

lemma params_typeMismatch_dummy:
  "dummyMode cfg \<Longrightarrow> sameTree w (fst (params_typeMismatch cfg ut src dst params w))"
  by (simp add: params_typeMismatch_def Let_def copyRecursive_dummy_from)

lemma dispatch_dummy:
  "dummyMode cfg \<Longrightarrow> sameTree w (fst (dispatch cfg ut params ev w))"
  by (cases ev)
     (simp_all add: params_srcOnly_dummy params_dstOnly_dummy params_match_dummy
        params_mismatch_dummy params_typeMismatch_dummy params_progressDirs_def
        params_progressFiles_def params_ignoredDir_def params_ignoredFile_def)

lemma dispatchAll_dummy:
  "dummyMode cfg \<Longrightarrow> sameTree w (fst (dispatchAll cfg ut params evs w))"
  by (induction evs arbitrary: w) (auto intro!: sameTree_andThen dispatch_dummy)

lemma mkDirs_same_log:
  "\<not> fsExists (entryAt w dir) \<Longrightarrow>
   out (fst (mkDirs dir v pfx True w)) = out (fst (mkDirs dir v pfx False w))"
  by (simp add: mkDirs_def fs_create_directories_def called_def print_def Let_def split: option.splits)

lemma ops_print [simp]: "ops (print line w) = ops w"
  by (simp add: print_def)

lemma fs_print [simp]: "fs (print line w) = fs w"
  by (simp add: print_def)

lemma entryAt_print [simp]: "entryAt (print line w) p = entryAt w p"
  by (simp add: entryAt_def)

lemma ops_fs_remove: "ops (fst (fs_remove p w)) = ops w @ [OpRemove p]"
  by (simp add: fs_remove_def called_def Let_def split: node.splits list.splits)

lemma ops_fs_create_directories:
  "ops (fst (fs_create_directories p w)) = ops w @ [OpCreateDirectories p]"
  by (simp add: fs_create_directories_def called_def Let_def split: option.splits)

lemma ops_copy_file: "ops (fst (copy_file from c to options w)) = ops w"
  by (simp add: copy_file_def Let_def)

lemma ops_fs_copy: "ops (fst (fs_copy src dst options w)) = ops w @ [OpCopy (fst src) dst options]"
  by (simp add: fs_copy_def called_def Let_def ops_copy_file split: node.splits)

lemma ops_mkDirs:
  "ops (fst (mkDirs dir v pfx d w)) =
     ops w @ (if \<not> d \<and> \<not> fsExists (entryAt w dir) then [OpCreateDirectories dir] else [])"
  by (simp add: mkDirs_def Let_def ops_fs_create_directories)

lemma fsLookup_resolve: "fsLookup (resolve n) (c # p) = fsLookup n (c # p)"
  by (simp add: resolve_idem)






lemma removeRecursive_ops_grow:
  "\<exists>new. ops (fst (removeRecursive ut dst v pfx follow d w)) = ops w @ new \<and> (\<forall>c\<in>set new. isRemove c)"
  "\<exists>new. ops (fst (removeEach ut es v pfx follow d w)) = ops w @ new \<and> (\<forall>c\<in>set new. isRemove c)"
proof (induct ut dst v pfx follow d w and ut es v pfx follow d w
    rule: removeRecursive_removeEach.induct)
  case (1 ut dst v pfx follow d w)
  let ?inner = "if fsIsDirectory dst False then
              (case directory_iterator dst of
                 Inl e \<Rightarrow> (w, Some e)
               | Inr entries \<Rightarrow> removeEach ut entries v pfx follow d w)
            else (w, None)"
  obtain w1 r where i: "?inner = (w1, r)" by (cases ?inner)
  have g: "\<exists>new. ops w1 = ops w @ new \<and> (\<forall>c\<in>set new. isRemove c)"
  proof (cases "fsIsDirectory dst False")
    case False
    then show ?thesis using i by simp
  next
    case True
    show ?thesis
    proof (cases "directory_iterator dst")
      case (Inl e)
      then show ?thesis using i True by simp
    next
      case (Inr es)
      then show ?thesis using i True 1 [OF True Inr] by simp
    qed
  qed
  show ?case
  proof (cases r)
    case (Some e)
    then show ?thesis using i g by (simp add: removeRecursive.simps)
  next
    case None
    then show ?thesis using i g
      by (auto simp add: removeRecursive.simps Let_def ops_fs_remove)
  qed
next
  case (2 ut v pfx follow d w)
  show ?case by simp
next
  case (3 ut dst' rest v pfx follow d w)
  obtain w1 r where x: "removeRecursive ut dst' v pfx follow d w = (w1, r)"
    by (cases "removeRecursive ut dst' v pfx follow d w")
  obtain n1 where a: "ops w1 = ops w @ n1" "\<forall>c\<in>set n1. isRemove c" using 3(1) x by auto
  show ?case
  proof (cases r)
    case (Some e)
    then show ?thesis using x a by auto
  next
    case None
    obtain n2 where b: "ops (fst (removeEach ut rest v pfx follow d w1)) = ops w1 @ n2"
      "\<forall>c\<in>set n2. isRemove c"
      using 3(2) [OF x [symmetric] None] by auto
    have "ops (fst (removeEach ut (dst' # rest) v pfx follow d w)) = ops w @ (n1 @ n2)"
      using x None a b by simp
    moreover have "\<forall>c\<in>set (n1 @ n2). isRemove c" using a b by auto
    ultimately show ?thesis by blast
  qed
qed

lemma isRemove_not_createsFork: "isRemove c \<Longrightarrow> \<not> createsFork c"
  by (cases c) (simp_all add: createsFork_def)

lemma filename_snoc [simp]: "filename (p @ [n]) = n"
  by (simp add: filename_def)

lemma copyRecursive_ignored:
  "ignoreSrcFile (filename (fst src)) params \<Longrightarrow>
   copyRecursive ut src dstpath options v pfx params d w = (w, None)"
  by (simp add: copyRecursive.simps)

lemma copyRecursive_unfold:
  assumes "\<not> ignoreSrcFile (filename (fst src)) params"
  shows "copyRecursive ut src dstpath options v pfx params d w =
     andThen
       (if overwrite_existing options \<and> fsExists (entryAt w (dstpath @ [filename (fst src)]))
            \<and> (\<not> fsIsRegular src (followSymlinks params)
                 \<or> \<not> fsIsRegular (entryAt w (dstpath @ [filename (fst src)])) False) then
          removeRecursive ut (entryAt w (dstpath @ [filename (fst src)])) v (pfx @ '': Deleting'')
            (followSymlinks params) d w
        else (w, None))
       (\<lambda>w1.
          if is_directory src then
            andThen (mkDirs (dstpath @ [filename (fst src)]) v (pfx @ '': Creating dir'') d w1)
              (\<lambda>w2. case directory_iterator src of
                       Inl e \<Rightarrow> (w2, Some e)
                     | Inr entries \<Rightarrow>
                         copyEach ut entries (dstpath @ [filename (fst src)]) options v pfx params d w2)
          else
            (if \<not> d then
               fs_copy src (dstpath @ [filename (fst src)]) options
                 (if v then
                    print (pfx @ '' '' @ getFileTypeStr ut src (followSymlinks params)
                           @ '' '' @ showPath (fst src) @ '' -> ''
                           @ showPath (dstpath @ [filename (fst src)])) w1
                  else w1)
             else
               (if v then
                  print (pfx @ '' '' @ getFileTypeStr ut src (followSymlinks params)
                         @ '' '' @ showPath (fst src) @ '' -> ''
                         @ showPath (dstpath @ [filename (fst src)])) w1
                else w1, None)))"
  using assms
  by (simp add: copyRecursive.simps [of ut src] andThen_def Let_def split: prod.splits option.splits)

lemma andThen_ops_grow:
  assumes "\<exists>new. ops (fst r) = ops w @ new \<and> P new"
    and "\<And>w1. \<exists>new. ops (fst (f w1)) = ops w1 @ new \<and> P new"
    and "\<And>a b. P a \<Longrightarrow> P b \<Longrightarrow> P (a @ b)"
  shows "\<exists>new. ops (fst (andThen r f)) = ops w @ new \<and> P new"
proof (cases r)
  case (Pair w1 e)
  obtain n1 where a: "ops w1 = ops w @ n1" "P n1" using assms(1) Pair by auto
  show ?thesis
  proof (cases e)
    case (Some x)
    then show ?thesis using a Pair by (auto simp: andThen_def)
  next
    case None
    obtain n2 where b: "ops (fst (f w1)) = ops w1 @ n2" "P n2" using assms(2) by blast
    have "ops (fst (andThen r f)) = ops w @ (n1 @ n2)" using a b Pair None by (simp add: andThen_def)
    then show ?thesis using assms(3) [OF a(2) b(2)] by blast
  qed
qed

lemma copyRecursive_ops_grow:
  "\<exists>new. ops (fst (copyRecursive ut src dstpath options v pfx params d w)) = ops w @ new
      \<and> (ignoreForksSrc params \<longrightarrow> (\<forall>c\<in>set new. \<not> createsFork c))"
  "\<exists>new. ops (fst (copyEach ut es dstpath options v pfx params d w)) = ops w @ new
      \<and> (ignoreForksSrc params \<longrightarrow> (\<forall>c\<in>set new. \<not> createsFork c))"
proof (induct ut src dstpath options v pfx params d w and ut es dstpath options v pfx params d w
    rule: copyRecursive_copyEach.induct)
  case (1 ut src dstpath options v pfx params d w)
  let ?P = "\<lambda>new. ignoreForksSrc params \<longrightarrow> (\<forall>c\<in>set new. \<not> createsFork c)"
  let ?dst = "dstpath @ [filename (fst src)]"
  let ?rm = "if overwrite_existing options \<and> fsExists (entryAt w ?dst)
            \<and> (\<not> fsIsRegular src (followSymlinks params)
                 \<or> \<not> fsIsRegular (entryAt w ?dst) False) then
          removeRecursive ut (entryAt w ?dst) v (pfx @ '': Deleting'')
            (followSymlinks params) d w
        else (w, None)"
  show ?case
  proof (cases "ignoreSrcFile (filename (fst src)) params")
    case True
    then show ?thesis by (simp add: copyRecursive_ignored)
  next
    case ni: False
    then have nf: "ignoreForksSrc params \<longrightarrow> \<not> hasPrefix (filename (fst src)) ''._''"
      by (simp add: ignoreSrcFile_def)
    obtain w1 r where rm: "?rm = (w1, r)" by (cases ?rm)
    obtain n1 where n1: "ops w1 = ops w @ n1" "?P n1"
    proof (cases "overwrite_existing options \<and> fsExists (entryAt w ?dst)
            \<and> (\<not> fsIsRegular src (followSymlinks params)
                 \<or> \<not> fsIsRegular (entryAt w ?dst) False)")
      case True
      obtain n where "ops (fst (removeRecursive ut (entryAt w ?dst) v (pfx @ '': Deleting'')
            (followSymlinks params) d w)) = ops w @ n" "\<forall>c\<in>set n. isRemove c"
        using removeRecursive_ops_grow(1) by blast
      then show ?thesis using that [of n] rm True isRemove_not_createsFork by auto
    next
      case False
      then show ?thesis using that [of "[]"] rm by auto
    qed
    show ?thesis
    proof (cases r)
      case (Some e)
      then show ?thesis using ni rm n1 by (simp add: copyRecursive_unfold andThen_def)
    next
      case None
      show ?thesis
      proof (cases "is_directory src")
        case False
        have "ops (fst (copyRecursive ut src dstpath options v pfx params d w))
            = ops w @ (n1 @ (if d then [] else [OpCopy (fst src) ?dst options]))"
          using ni rm None False n1(1) by (simp add: copyRecursive_unfold andThen_def ops_fs_copy)
        moreover have "?P (n1 @ (if d then [] else [OpCopy (fst src) ?dst options]))"
          using n1(2) nf by (simp add: createsFork_def)
        ultimately show ?thesis by blast
      next
        case True
        obtain w2 r2 where mk: "mkDirs ?dst v (pfx @ '': Creating dir'') d w1 = (w2, r2)"
          by (cases "mkDirs ?dst v (pfx @ '': Creating dir'') d w1")
        let ?n2 = "if \<not> d \<and> \<not> fsExists (entryAt w1 ?dst) then [OpCreateDirectories ?dst] else []"
        have n2: "ops w2 = ops w1 @ ?n2" "?P ?n2"
          using ops_mkDirs [of ?dst v "pfx @ '': Creating dir''" d w1] mk nf
          by (simp_all add: createsFork_def)
        show ?thesis
        proof (cases r2)
          case (Some e)
          have "ops (fst (copyRecursive ut src dstpath options v pfx params d w)) = ops w @ (n1 @ ?n2)"
            using ni rm None True mk Some n1(1) n2(1) by (simp add: copyRecursive_unfold andThen_def)
          moreover have "?P (n1 @ ?n2)" using n1(2) n2(2) by auto
          ultimately show ?thesis by blast
        next
          case r2: None
          show ?thesis
          proof (cases "directory_iterator src")
            case (Inl e)
            have "ops (fst (copyRecursive ut src dstpath options v pfx params d w)) = ops w @ (n1 @ ?n2)"
              using ni rm None True mk r2 Inl n1(1) n2(1) by (simp add: copyRecursive_unfold andThen_def)
            moreover have "?P (n1 @ ?n2)" using n1(2) n2(2) by auto
            ultimately show ?thesis by blast
          next
            case (Inr entries)
            obtain n3 where n3: "ops (fst (copyEach ut entries ?dst options v pfx params d w2)) = ops w2 @ n3"
              "?P n3"
              using 1 [OF ni refl rm [symmetric] None True mk [symmetric] r2 Inr] by blast
            have "ops (fst (copyRecursive ut src dstpath options v pfx params d w)) = ops w @ (n1 @ ?n2 @ n3)"
              using ni rm None True mk r2 Inr n1(1) n2(1) n3(1)
              by (simp add: copyRecursive_unfold andThen_def)
            moreover have "?P (n1 @ ?n2 @ n3)" using n1(2) n2(2) n3(2) by auto
            ultimately show ?thesis by blast
          qed
        qed
      qed
    qed
  qed
next
  case (2 ut dstpath options v pfx params d w)
  show ?case by simp
next
  case (3 ut src' rest dstpath options v pfx params d w)
  obtain w1 r where x: "copyRecursive ut src' dstpath options v pfx params d w = (w1, r)"
    by (cases "copyRecursive ut src' dstpath options v pfx params d w")
  obtain n1 where a: "ops w1 = ops w @ n1" "ignoreForksSrc params \<longrightarrow> (\<forall>c\<in>set n1. \<not> createsFork c)"
    using 3(1) x by auto
  show ?case
  proof (cases r)
    case (Some e)
    then show ?thesis using x a by auto
  next
    case None
    obtain n2 where b: "ops (fst (copyEach ut rest dstpath options v pfx params d w1)) = ops w1 @ n2"
      "ignoreForksSrc params \<longrightarrow> (\<forall>c\<in>set n2. \<not> createsFork c)"
      using 3(2) [OF x [symmetric] None] by auto
    have "ops (fst (copyEach ut (src' # rest) dstpath options v pfx params d w)) = ops w @ (n1 @ n2)"
      using x None a b by simp
    moreover have "ignoreForksSrc params \<longrightarrow> (\<forall>c\<in>set (n1 @ n2). \<not> createsFork c)" using a b by auto
    ultimately show ?thesis by blast
  qed
qed

lemmas run_defs = exampleWorld_def baseConfig_def updateConfig_def makeTerminalColors_def
  plainUtils_def plainParams_def insWorld_def insConfig_def
  params_srcOnly_def params_dstOnly_def params_match_def params_mismatch_def params_typeMismatch_def
  params_progressDirs_def params_progressFiles_def params_ignoredDir_def params_ignoredFile_def
  andThen_def copy_options_base_def srcNewer_def getLastWriteTime_def mismatchLine_def
  copyRecursive.simps removeRecursive.simps printDirectoryEntry.simps mkDirs_def
  fs_remove_def fs_copy_def copy_file_def fs_create_directories_def called_def print_def
  entryAt_def is_other_def is_directory_def fsIsRegular_def fsIsDirectory_def fsExists_def
  getFileType_def directory_iterator_def ignoreSrcFile_def ignoreDstFile_def hasPrefix_def
  filename_def parent_path_def showPath_def quoted_def file_size_def read_symlink_def
  preserve_def Let_def


lemma removeRecursive_non_directory:
  assumes "\<not> fsIsDirectory dst False"
  shows "removeRecursive ut dst v pfx follow d w =
     (if d then
        (if v then print (pfx @ '' '' @ getFileTypeStr ut dst follow @ '' '' @ showPath (fst dst)) w else w, None)
      else
        fs_remove (fst dst)
          (if v then print (pfx @ '' '' @ getFileTypeStr ut dst follow @ '' '' @ showPath (fst dst)) w else w))"
  using assms by (simp add: removeRecursive.simps Let_def)

lemma fs_remove_non_directory:
  assumes "nodeType (fsLookup (fs w) p) \<noteq> FT_DIR"
  shows "snd (fs_remove p w) = None"
  using assms by (cases "fsLookup (fs w) p") (simp_all add: fs_remove_def called_def Let_def)

lemma removeOps_non_directory: "\<not> fsIsDirectory dst False \<Longrightarrow> removeOps dst = [OpRemove (fst dst)]"
  by (simp add: removeOps.simps)

lemma copyRecursive_file_ops:
  assumes ni: "\<not> ignoreSrcFile (filename (fst src)) params"
    and nd: "\<not> is_directory src"
    and ld: "\<not> fsIsDirectory (entryAt w (dstpath @ [filename (fst src)])) False"
  shows "ops (fst (copyRecursive ut src dstpath options v pfx params False w)) =
     ops w @
     (if overwrite_existing options \<and> fsExists (entryAt w (dstpath @ [filename (fst src)]))
          \<and> (\<not> fsIsRegular src (followSymlinks params)
               \<or> \<not> fsIsRegular (entryAt w (dstpath @ [filename (fst src)])) False)
      then [OpRemove (dstpath @ [filename (fst src)])] else [])
     @ [OpCopy (fst src) (dstpath @ [filename (fst src)]) options]"
proof -
  let ?dst = "dstpath @ [filename (fst src)]"
  let ?w0 = "if v then print ((pfx @ '': Deleting'') @ '' '' @ getFileTypeStr ut (entryAt w ?dst) (followSymlinks params)
                 @ '' '' @ showPath (fst (entryAt w ?dst))) w else w"
  have t: "nodeType (fsLookup (fs ?w0) ?dst) \<noteq> FT_DIR"
    using ld by (simp add: fsIsDirectory_def getFileType_def entryAt_def)
  have rm: "removeRecursive ut (entryAt w ?dst) v (pfx @ '': Deleting'') (followSymlinks params) False w
      = (fst (fs_remove ?dst ?w0), None)"
    using fs_remove_non_directory [OF t] removeRecursive_non_directory [OF ld, of ut v _ _ False w]
    by (simp add: entryAt_def prod_eq_iff)
  show ?thesis
    using ni nd rm
    by (simp add: copyRecursive_unfold andThen_def ops_fs_copy ops_fs_remove)
qed




text \<open>What is found at a path after a write to it, or to another name of its directory.\<close>

lemma resolve_resolve [simp]: "resolve (resolve n) = resolve n"
  by (induction n) simp_all

lemma resolve_not_Symlink [simp]: "resolve n \<noteq> Symlink m t x"
  by (induction n) simp_all




lemma fsLookup_Cons_NonExisting [simp]: "fsLookup NonExisting (c # p) = NonExisting"
  by simp




lemma writeThrough_plain:
  "n = NonExisting \<or> n = Regular m c \<Longrightarrow> writeThrough new n = new"
  by auto







section \<open>Claims about the dispatcher\<close>

text \<open>
  Claim C10. With the fork filter of the source side on, \<open>copyRecursive\<close> does nothing for
  an entry whose filename starts with \<open>._\<close>: the state is returned as it was and nothing
  is thrown. As every level of the recursion goes through this test, no call of a
  creating primitive that \<open>copyRecursive\<close> makes, at any depth and in any directory it
  copies into, has a source or a destination path whose filename starts with \<open>._\<close>
  (\<open>createsFork\<close>).
\<close>

theorem copyRecursive_skips_forks:
  assumes "ignoreForksSrc params"
  shows "(hasPrefix (filename (fst src)) ''._'' \<longrightarrow>
            copyRecursive ut src dstpath options v pfx params d w = (w, None))
       \<and> (\<exists>new. ops (fst (copyRecursive ut src dstpath options v pfx params d w)) = ops w @ new
              \<and> (\<forall>c\<in>set new. \<not> createsFork c))"
  using assms copyRecursive_ops_grow(1) [of ut src dstpath options v pfx params d w]
  by (simp add: copyRecursive_ignored ignoreSrcFile_def)

theorem copyRecursive_skips_forks_witness:
  "copyRecursive plainUtils ([''s'', ''._x''], Regular 0 ''r'') [''d'']
      (copy_options_base (plainParams\<lparr>ignoreForksSrc := True\<rparr>)) False ''Copying (new)''
      (plainParams\<lparr>ignoreForksSrc := True\<rparr>) False exampleWorld = (exampleWorld, None)
   \<and> ops (fst (copyRecursive plainUtils
        ([''s'', ''sub''], Dir 0 [(''._x'', Regular 0 ''r''), (''y'', Regular 0 ''c''),
                                 (''._z'', Dir 0 [(''q'', Fifo 0)])]) [''d'']
        (copy_options_base (plainParams\<lparr>ignoreForksSrc := True\<rparr>)) False ''Copying (new)''
        (plainParams\<lparr>ignoreForksSrc := True\<rparr>) False exampleWorld))
     = [OpCreateDirectories [''d'', ''sub''],
        OpCopy [''s'', ''sub'', ''y''] [''d'', ''sub'', ''y'']
          \<lparr>overwrite_existing = False, copy_symlinks = True\<rparr>]"
  using copyRecursive_skips_forks [of "plainParams\<lparr>ignoreForksSrc := True\<rparr>"
      "([''s'', ''._x''], Regular 0 ''r'')" plainUtils "[''d'']"
      "copy_options_base (plainParams\<lparr>ignoreForksSrc := True\<rparr>)" False "''Copying (new)''" False
      exampleWorld]
  by (simp add: run_defs)









text \<open>
  Claim C6, as the code has it. With dummy mode set no event sequence makes the
  dispatcher change the tree, call a mutating primitive or advance the clock, and the
  same holds for \<open>mkDirs\<close>, \<open>removeRecursive\<close> and \<open>copyRecursive\<close> called with the
  dummy flag. The log is not always the log of the real run: in dummy mode \<open>mkDirs\<close>
  prints its line under \<open>verbose\<close> whether or not the directory exists, in a real run
  only when the directory does not exist, so the two logs of \<open>mkDirs\<close> are equal exactly
  when \<open>verbose\<close> is unset or the directory does not exist.
\<close>

theorem dummyMode_never_mutates:
  "(dummyMode cfg \<longrightarrow> sameTree w (fst (dispatchAll cfg ut params evs w)))
   \<and> sameTree w (fst (mkDirs dir v pfx True w))
   \<and> sameTree w (fst (removeRecursive ut dst v pfx follow True w))
   \<and> sameTree w (fst (copyRecursive ut src dstpath options v pfx params True w))
   \<and> out (fst (mkDirs dir v pfx True w))
       = out w @ (if v then [pfx @ '' '' @ showPath dir] else [])
   \<and> out (fst (mkDirs dir v pfx False w))
       = out w @ (if v \<and> \<not> fsExists (entryAt w dir) then [pfx @ '' '' @ showPath dir] else [])
   \<and> (out (fst (mkDirs dir v pfx True w)) = out (fst (mkDirs dir v pfx False w))
        \<longleftrightarrow> \<not> v \<or> \<not> fsExists (entryAt w dir))"
proof (intro conjI impI)
  assume "dummyMode cfg"
  then show "sameTree w (fst (dispatchAll cfg ut params evs w))" by (rule dispatchAll_dummy)
next
  show "sameTree w (fst (mkDirs dir v pfx True w))" by (rule mkDirs_dummy)
  show "sameTree w (fst (removeRecursive ut dst v pfx follow True w))"
    by (rule removeRecursive_dummy(1))
  show "sameTree w (fst (copyRecursive ut src dstpath options v pfx params True w))"
    by (rule copyRecursive_dummy(1))
  show d: "out (fst (mkDirs dir v pfx True w))
       = out w @ (if v then [pfx @ '' '' @ showPath dir] else [])"
    by (simp add: mkDirs_def print_def)
  show r: "out (fst (mkDirs dir v pfx False w))
       = out w @ (if v \<and> \<not> fsExists (entryAt w dir) then [pfx @ '' '' @ showPath dir] else [])"
    by (simp add: mkDirs_def fs_create_directories_def called_def print_def Let_def
        split: option.splits)
  show "out (fst (mkDirs dir v pfx True w)) = out (fst (mkDirs dir v pfx False w))
        \<longleftrightarrow> \<not> v \<or> \<not> fsExists (entryAt w dir)"
    unfolding d r by simp
qed


theorem dummyMode_never_mutates_witness:
  "fs (fst (dispatchAll (insConfig\<lparr>dummyMode := True\<rparr>) plainUtils plainParams
        [ProgressDirs ([''s''], Dir 0 [(''a'', Regular 5 ''hello'')]) ([''d''], Dir 0 []),
         SrcOnly ([''s'', ''a''], Regular 5 ''hello'') [''d'']] insWorld)) = fs insWorld
   \<and> ops (fst (dispatchAll (insConfig\<lparr>dummyMode := True\<rparr>) plainUtils plainParams
        [ProgressDirs ([''s''], Dir 0 [(''a'', Regular 5 ''hello'')]) ([''d''], Dir 0 []),
         SrcOnly ([''s'', ''a''], Regular 5 ''hello'') [''d'']] insWorld)) = []
   \<and> out (fst (mkDirs [''o''] True ''Creating dir'' True insWorld))
       = [''Creating dir '' @ showPath [''o'']]
   \<and> out (fst (mkDirs [''o''] True ''Creating dir'' False insWorld)) = []
   \<and> out (fst (mkDirs [''n''] True ''Creating dir'' False insWorld))
       = [''Creating dir '' @ showPath [''n'']]"
  using dummyMode_never_mutates [of "insConfig\<lparr>dummyMode := True\<rparr>" insWorld plainUtils plainParams
      "[ProgressDirs ([''s''], Dir 0 [(''a'', Regular 5 ''hello'')]) ([''d''], Dir 0 []),
        SrcOnly ([''s'', ''a''], Regular 5 ''hello'') [''d'']]"
      "[''o'']" True "''Creating dir''" "([''d''], Dir 0 [])" False
      "([''s'', ''a''], Regular 5 ''hello'')" "[''o'']"
      "\<lparr>overwrite_existing = True, copy_symlinks = True\<rparr>"]
    dummyMode_never_mutates [of "insConfig\<lparr>dummyMode := True\<rparr>" insWorld plainUtils plainParams
      "[]" "[''n'']" True "''Creating dir''" "([''d''], Dir 0 [])" False
      "([''s'', ''a''], Regular 5 ''hello'')" "[''o'']"
      "\<lparr>overwrite_existing = True, copy_symlinks = True\<rparr>"]
  by (simp add: sameTree_def insWorld_def insConfig_def baseConfig_def entryAt_def fsExists_def)

theorem dummy_log_differs_counterexample:
  "fst (processDir plainUtils plainParams (entryAt insWorld [''s'']) (entryAt insWorld [''d'']) [])
     = [ProgressDirs ([''s''], Dir 0 [(''a'', Regular 5 ''hello'')]) ([''d''], Dir 0 []),
        SrcOnly ([''s'', ''a''], Regular 5 ''hello'') [''d'']]
   \<and> out (fst (dispatchAll (insConfig\<lparr>dummyMode := True\<rparr>) plainUtils plainParams
        [ProgressDirs ([''s''], Dir 0 [(''a'', Regular 5 ''hello'')]) ([''d''], Dir 0 []),
         SrcOnly ([''s'', ''a''], Regular 5 ''hello'') [''d'']] insWorld))
     = [''+ file '' @ showPath [''s'', ''a''],
        ''Creating --copy-ins destination dir '' @ showPath [''o''],
        ''Copying (--copy-ins) file '' @ showPath [''s'', ''a''] @ '' -> '' @ showPath [''o'', ''a'']]
   \<and> out (fst (dispatchAll insConfig plainUtils plainParams
        [ProgressDirs ([''s''], Dir 0 [(''a'', Regular 5 ''hello'')]) ([''d''], Dir 0 []),
         SrcOnly ([''s'', ''a''], Regular 5 ''hello'') [''d'']] insWorld))
     = [''+ file '' @ showPath [''s'', ''a''],
        ''Copying (--copy-ins) file '' @ showPath [''s'', ''a''] @ '' -> '' @ showPath [''o'', ''a'']]
   \<and> fsLookup (fs insWorld) [''s''] = fsLookup
        (fs (fst (dispatchAll insConfig plainUtils plainParams
          [ProgressDirs ([''s''], Dir 0 [(''a'', Regular 5 ''hello'')]) ([''d''], Dir 0 []),
           SrcOnly ([''s'', ''a''], Regular 5 ''hello'') [''d'']] insWorld))) [''s'']
   \<and> fsLookup (fs insWorld) [''d''] = fsLookup
        (fs (fst (dispatchAll insConfig plainUtils plainParams
          [ProgressDirs ([''s''], Dir 0 [(''a'', Regular 5 ''hello'')]) ([''d''], Dir 0 []),
           SrcOnly ([''s'', ''a''], Regular 5 ''hello'') [''d'']] insWorld))) [''d'']"
  by (simp add: run_defs eval_defs)

end
